(* ===== verification/Prelude.thy ===== *)
theory Prelude
  imports Main
begin

text \<open>
  Shared vocabulary of the development: the names of the byte-level types, the
  collections that the component theories fill (\<open>cache_simps\<close>,
  \<open>handler_simps\<close>, ...), Go's 64-bit wrap-around, and the generic list and
  association-list lemmas that several components use.
\<close>

type_synonym bytes = string  \<comment> \<open>Go's \<open>string\<close> and \<open>[]byte\<close>: a sequence of bytes\<close>

named_theorems cache_simps \<open>unfolding rules of the LRU cache operations\<close>
named_theorems time_simps \<open>unfolding rules of the time values\<close>
named_theorems effect_simps \<open>projections of the recorded effects\<close>
named_theorems handler_simps \<open>unfolding rules of the HTTP handlers\<close>

section \<open>64-bit signed integers\<close>

text \<open>Go's \<open>int\<close> and \<open>int64\<close> are two's complement 64-bit values; \<open>wrap64\<close> is the
  wrap-around of their arithmetic.\<close>

definition max_int64 :: int where
  "max_int64 = 2 ^ 63 - 1"

definition min_int64 :: int where
  "min_int64 = - (2 ^ 63)"

definition wrap64 :: "int \<Rightarrow> int" where
  "wrap64 x = (x + 2 ^ 63) mod 2 ^ 64 - 2 ^ 63"

definition in_int64 :: "int \<Rightarrow> bool" where
  "in_int64 x \<longleftrightarrow> min_int64 \<le> x \<and> x \<le> max_int64"

lemmas int64_defs = max_int64_def min_int64_def in_int64_def

lemma wrap64_id: "in_int64 x \<Longrightarrow> wrap64 x = x"
  by (simp add: wrap64_def int64_defs)

lemma wrap64_in: "in_int64 (wrap64 x)"
  by (simp add: wrap64_def int64_defs)

lemma wrap64_idem [simp]: "wrap64 (wrap64 x) = wrap64 x"
  by (rule wrap64_id [OF wrap64_in])

lemma wrap64_add: "wrap64 (wrap64 x + y) = wrap64 (x + y)"
proof -
  have "(wrap64 x + y + 2 ^ 63) mod 2 ^ 64 = ((x + 2 ^ 63) mod 2 ^ 64 + y) mod 2 ^ 64"
    by (simp add: wrap64_def algebra_simps)
  also have "\<dots> = ((x + 2 ^ 63) + y) mod 2 ^ 64"
    by (rule mod_add_left_eq)
  also have "(x + 2 ^ 63) + y = x + y + 2 ^ 63"
    by simp
  finally show ?thesis by (simp add: wrap64_def)
qed

section \<open>Lists and association lists\<close>

abbreviation keys_of :: "('k \<times> 'v) list \<Rightarrow> 'k list" where
  "keys_of l \<equiv> map fst l"

definition del_key :: "'k \<Rightarrow> ('k \<times> 'v) list \<Rightarrow> ('k \<times> 'v) list" where
  "del_key k l = filter (\<lambda>p. fst p \<noteq> k) l"

lemma set_del_key: "set (del_key k l) = {p \<in> set l. fst p \<noteq> k}"
  by (simp add: del_key_def)

lemma keys_del_key: "fst ` set (del_key k l) = fst ` set l - {k}"
  by (auto simp: del_key_def)

lemma distinct_del_key: "distinct (keys_of l) \<Longrightarrow> distinct (keys_of (del_key k l))"
  by (simp add: del_key_def distinct_map_filter)

lemma map_of_del_key: "map_of (del_key k l) = (map_of l)(k := None)"
  by (induction l) (auto simp: del_key_def)

lemma del_key_absent: "k \<notin> fst ` set l \<Longrightarrow> del_key k l = l"
  by (auto simp: del_key_def filter_id_conv)

lemma length_del_key_le: "length (del_key k l) \<le> length l"
  by (simp add: del_key_def)

lemma length_del_key:
  assumes "distinct (keys_of l)" and "k \<in> fst ` set l"
  shows "Suc (length (del_key k l)) = length l"
  using assms
proof (induction l)
  case Nil
  then show ?case by simp
next
  case (Cons p l)
  show ?case
  proof (cases "fst p = k")
    case True
    with Cons.prems have "k \<notin> fst ` set l" by auto
    with True show ?thesis using del_key_absent [of k l] by (simp add: del_key_def)
  next
    case False
    with Cons show ?thesis by (auto simp: del_key_def)
  qed
qed

lemma map_del_remove1:
  assumes "distinct xs" and "inj_on f (set xs)" and "x \<in> set xs"
  shows "map f (remove1 x xs) = filter (\<lambda>y. y \<noteq> f x) (map f xs)"
proof -
  have "remove1 x xs = filter (\<lambda>y. y \<noteq> x) xs"
    using assms(1)
    by (auto simp: distinct_remove1_removeAll removeAll_filter_not_eq intro: filter_cong)
  also have "\<dots> = filter (\<lambda>y. f y \<noteq> f x) xs"
    using assms(2,3) by (intro filter_cong) (auto dest: inj_onD)
  finally show ?thesis by (simp add: filter_map o_def)
qed

lemma length_remove1_mem: "x \<in> set xs \<Longrightarrow> Suc (length (remove1 x xs)) = length xs"
  by (induction xs) auto

lemma remove1_last: "distinct xs \<Longrightarrow> xs \<noteq> [] \<Longrightarrow> remove1 (last xs) xs = butlast xs"
proof (induction xs rule: rev_induct)
  case (snoc x xs)
  then show ?case by (simp add: remove1_append)
qed simp

end
