(* ===== verification/GoStrings.thy ===== *)
theory GoStrings
  imports Prelude
begin

text \<open>
  What the program uses of Go's packages \<open>strings\<close> and \<open>strconv\<close>, and the conversions
  between strings (byte sequences) and runes (Unicode code points).
\<close>

section \<open>Decimal digits\<close>

definition byte_of :: "char \<Rightarrow> nat" where
  "byte_of c = of_char c"

definition char_of_byte :: "nat \<Rightarrow> char" where
  "char_of_byte n = char_of n"

definition is_digit :: "char \<Rightarrow> bool" where
  "is_digit c \<longleftrightarrow> 48 \<le> byte_of c \<and> byte_of c \<le> 57"

definition digit_val :: "char \<Rightarrow> nat" where
  "digit_val c = byte_of c - 48"

definition digit_char :: "nat \<Rightarrow> char" where
  "digit_char n = char_of_byte (48 + n)"

lemma byte_of_char_of_byte [simp]: "n < 256 \<Longrightarrow> byte_of (char_of_byte n) = n"
  by (simp add: byte_of_def char_of_byte_def of_char_of)

lemma char_of_byte_byte_of [simp]: "char_of_byte (byte_of c) = c"
  by (simp add: byte_of_def char_of_byte_def)

lemma byte_of_less [simp]: "byte_of c < 256"
  by (simp add: byte_of_def)

lemma byte_of_eq_iff: "byte_of c = byte_of d \<longleftrightarrow> c = d"
  by (simp add: byte_of_def)

lemma is_digit_digit_char [simp]: "n < 10 \<Longrightarrow> is_digit (digit_char n)"
  by (simp add: is_digit_def digit_char_def)

lemma digit_val_digit_char [simp]: "n < 10 \<Longrightarrow> digit_val (digit_char n) = n"
  by (simp add: digit_val_def digit_char_def)

lemma digit_val_less: "is_digit c \<Longrightarrow> digit_val c < 10"
  by (auto simp: is_digit_def digit_val_def)

section \<open>strconv.Itoa\<close>

fun nat_digits :: "nat \<Rightarrow> string" where
  "nat_digits n =
     (if n < 10 then [digit_char n] else nat_digits (n div 10) @ [digit_char (n mod 10)])"

declare nat_digits.simps [simp del]

definition Itoa :: "int \<Rightarrow> string" where
  "Itoa i = (if i < 0 then ''-'' @ nat_digits (nat (- i)) else nat_digits (nat i))"

text \<open>The value of a string of digits.\<close>

definition digits_value :: "string \<Rightarrow> nat" where
  "digits_value s = foldl (\<lambda>n c. 10 * n + digit_val c) 0 s"

lemma digits_value_snoc: "digits_value (s @ [c]) = 10 * digits_value s + digit_val c"
  by (simp add: digits_value_def)

lemma nat_digits_nonempty [simp]: "nat_digits n \<noteq> []"
  by (subst nat_digits.simps) simp

lemma nat_digits_are_digits: "list_all is_digit (nat_digits n)"
proof (induction n rule: nat_digits.induct)
  case (1 n)
  then show ?case by (subst nat_digits.simps) simp
qed

lemma digits_value_nat_digits [simp]: "digits_value (nat_digits n) = n"
proof (induction n rule: nat_digits.induct)
  case (1 n)
  show ?case
  proof (cases "n < 10")
    case True
    then show ?thesis by (subst nat_digits.simps) (simp add: digits_value_def)
  next
    case False
    with 1 show ?thesis by (subst nat_digits.simps) (simp add: digits_value_snoc)
  qed
qed

lemma nat_digits_inj: "nat_digits m = nat_digits n \<Longrightarrow> m = n"
  by (metis digits_value_nat_digits)

lemma not_digit_minus: "\<not> is_digit CHR ''-''"
  by (simp add: is_digit_def byte_of_def)

lemma Itoa_inj: "Itoa a = Itoa b \<Longrightarrow> a = b"
proof -
  assume eq: "Itoa a = Itoa b"
  have hd: "nat_digits n \<noteq> CHR ''-'' # s" for n s
    using nat_digits_are_digits [of n] not_digit_minus by (metis list.pred_inject(2))
  from eq show "a = b"
    by (auto simp: Itoa_def hd hd [symmetric] split: if_splits dest: nat_digits_inj)
qed

section \<open>strconv.ParseInt in base 10\<close>

datatype num_error = ErrSyntax | ErrRange

text \<open>
  The loop of \<open>ParseUint\<close>: the first byte that is not a digit is a syntax error (result 0),
  the first digit that takes the value beyond 64 bits is a range error (result the greatest
  \<open>uint64\<close>), whichever comes first.
\<close>

fun ParseUint_loop :: "nat \<Rightarrow> string \<Rightarrow> nat \<times> num_error option" where
  "ParseUint_loop n [] = (n, None)"
| "ParseUint_loop n (c # s) =
     (if \<not> is_digit c then (0, Some ErrSyntax)
      else if 2 ^ 64 \<le> 10 * n + digit_val c then (2 ^ 64 - 1, Some ErrRange)
      else ParseUint_loop (10 * n + digit_val c) s)"

definition ParseUint :: "string \<Rightarrow> nat \<times> num_error option" where
  "ParseUint s = (if s = [] then (0, Some ErrSyntax) else ParseUint_loop 0 s)"

definition ParseInt :: "string \<Rightarrow> int \<times> num_error option" where
  "ParseInt s =
     (let neg = (s \<noteq> [] \<and> hd s = CHR ''-'');
          digits = (if s \<noteq> [] \<and> (hd s = CHR ''-'' \<or> hd s = CHR ''+'') then tl s else s);
          (un, err) = ParseUint digits
      in if err = Some ErrSyntax then (0, Some ErrSyntax)
         else if \<not> neg \<and> 2 ^ 63 \<le> un then (max_int64, Some ErrRange)
         else if neg \<and> 2 ^ 63 < un then (min_int64, Some ErrRange)
         else (if neg then - int un else int un, None))"

text \<open>\<open>int\<close> has 64 bits, so \<open>Atoi\<close> computes what \<open>ParseInt(s, 10, 0)\<close> does.\<close>

definition Atoi :: "string \<Rightarrow> int \<times> num_error option" where
  "Atoi s = ParseInt s"

definition Atoi_value :: "string \<Rightarrow> int" where
  "Atoi_value s = fst (Atoi s)"  \<comment> \<open>\<open>v, _ := strconv.Atoi(s)\<close>\<close>

lemma ParseUint_loop_digits:
  assumes "list_all is_digit s" and "foldl (\<lambda>n c. 10 * n + digit_val c) n s < 2 ^ 64"
  shows "ParseUint_loop n s = (foldl (\<lambda>n c. 10 * n + digit_val c) n s, None)"
  using assms
proof (induction s arbitrary: n)
  case (Cons c s)
  have mono: "m \<le> foldl (\<lambda>n c. 10 * n + digit_val c) m s" for m
  proof (induction s arbitrary: m)
    case (Cons a s)
    have "m \<le> 10 * m + digit_val a" by simp
    also have "\<dots> \<le> foldl (\<lambda>n c. 10 * n + digit_val c) (10 * m + digit_val a) s" by (rule Cons.IH)
    finally show ?case by simp
  qed simp
  have "10 * n + digit_val c < 2 ^ 64"
    using Cons.prems(2) mono [of "10 * n + digit_val c"] by simp
  with Cons show ?case by simp
qed simp

lemma ParseUint_digits:
  "s \<noteq> [] \<Longrightarrow> list_all is_digit s \<Longrightarrow> digits_value s < 2 ^ 64 \<Longrightarrow>
     ParseUint s = (digits_value s, None)"
  using ParseUint_loop_digits [of s 0] by (simp add: ParseUint_def digits_value_def)

lemma ParseInt_in_int64: "in_int64 (fst (ParseInt s))"
proof -
  obtain un err where p: "ParseUint (if s \<noteq> [] \<and> (hd s = CHR ''-'' \<or> hd s = CHR ''+'') then tl s else s) = (un, err)"
    by fastforce
  show ?thesis
    unfolding ParseInt_def Let_def p by (simp add: int64_defs)
qed

lemma Atoi_value_in_int64: "in_int64 (Atoi_value s)"
  by (simp add: Atoi_value_def Atoi_def ParseInt_in_int64)

lemma ParseInt_Itoa:
  assumes "in_int64 i"
  shows "ParseInt (Itoa i) = (i, None)"
proof (cases "i < 0")
  case True
  with assms have "ParseUint (nat_digits (nat (- i))) = (nat (- i), None)"
    by (subst ParseUint_digits) (auto simp: nat_digits_are_digits int64_defs)
  with True assms show ?thesis
    by (simp add: ParseInt_def Itoa_def int64_defs Let_def)
next
  case False
  let ?s = "nat_digits (nat i)"
  from False assms have p: "ParseUint ?s = (nat i, None)"
    by (subst ParseUint_digits) (auto simp: nat_digits_are_digits int64_defs)
  have "hd ?s \<noteq> CHR ''-''" "hd ?s \<noteq> CHR ''+''"
    using nat_digits_are_digits [of "nat i"]
    by (cases ?s; auto simp: is_digit_def byte_of_def)+
  with False assms p show ?thesis
    by (simp add: ParseInt_def Itoa_def int64_defs Let_def)
qed

text \<open>Two decimal digits, as \<open>"01"\<close>, \<open>"15"\<close>, ... in a time layout.\<close>

definition pad_nat :: "nat \<Rightarrow> nat \<Rightarrow> string" where
  "pad_nat w n = replicate (w - length (nat_digits n)) CHR ''0'' @ nat_digits n"

lemma nat_digits_small: "n < 10 \<Longrightarrow> nat_digits n = [digit_char n]"
  by (simp add: nat_digits.simps)

lemma nat_digits_ge: "10 \<le> n \<Longrightarrow> nat_digits n = nat_digits (n div 10) @ [digit_char (n mod 10)]"
  by (simp add: nat_digits.simps [of n])

lemma digit_char_0: "digit_char 0 = CHR ''0''"
  by (simp add: digit_char_def byte_of_eq_iff [symmetric]) (simp add: byte_of_def)

lemma replicate_numeral: "replicate (numeral n) x = x # replicate (pred_numeral n) x"
  by (simp add: numeral_eq_Suc)

lemma pad_nat_2: "n < 100 \<Longrightarrow> pad_nat 2 n = [digit_char (n div 10), digit_char (n mod 10)]"
  by (cases "n < 10") (simp_all add: pad_nat_def nat_digits_small nat_digits_ge digit_char_0)

lemma pad_nat_4:
  assumes "n < 10000"
  shows "pad_nat 4 n = [digit_char (n div 1000), digit_char (n div 100 mod 10),
                        digit_char (n div 10 mod 10), digit_char (n mod 10)]"
proof -
  consider "n < 10" | "10 \<le> n" "n < 100" | "100 \<le> n" "n < 1000" | "1000 \<le> n" by linarith
  then show ?thesis
    using assms
    by cases (simp_all add: pad_nat_def nat_digits_small nat_digits_ge digit_char_0 replicate_numeral div_mult2_eq [symmetric])
qed

lemma digits_value_pad_nat [simp]: "digits_value (pad_nat w n) = n"
proof -
  have "foldl (\<lambda>n c. 10 * n + digit_val c) 0 (replicate k CHR ''0'') = 0" for k
    by (induction k) (simp_all add: digit_char_0 [symmetric])
  then have "digits_value (replicate k CHR ''0'' @ s) = digits_value s" for k s
    by (simp add: digits_value_def)
  then show ?thesis by (simp add: pad_nat_def)
qed

lemma pad_nat_digits: "list_all is_digit (pad_nat w n)"
proof -
  have "is_digit CHR ''0''" by (simp add: digit_char_0 [symmetric])
  then show ?thesis
    using nat_digits_are_digits [of n] by (auto simp: pad_nat_def list_all_iff)
qed

section \<open>Package strings\<close>

definition HasPrefix :: "string \<Rightarrow> string \<Rightarrow> bool" where
  "HasPrefix s p \<longleftrightarrow> take (length p) s = p"

definition TrimPrefix :: "string \<Rightarrow> string \<Rightarrow> string" where
  "TrimPrefix s p = (if HasPrefix s p then drop (length p) s else s)"

lemma TrimPrefix_append [simp]: "TrimPrefix (p @ s) p = s"
  by (simp add: TrimPrefix_def HasPrefix_def)

lemma HasPrefix_append [simp]: "HasPrefix (p @ s) p"
  by (simp add: HasPrefix_def)

lemma HasPrefix_iff: "HasPrefix s p \<longleftrightarrow> (\<exists>r. s = p @ r)"
  by (metis HasPrefix_append HasPrefix_def append_take_drop_id)

fun Contains :: "string \<Rightarrow> string \<Rightarrow> bool" where
  "Contains [] p = (p = [])"
| "Contains (c # s) p = (HasPrefix (c # s) p \<or> Contains s p)"

lemma Contains_iff: "Contains s p \<longleftrightarrow> (\<exists>a b. s = a @ p @ b)"
proof (induction s)
  case (Cons c s)
  have "(\<exists>a b. c # s = a @ p @ b) \<longleftrightarrow> (\<exists>b. c # s = p @ b) \<or> (\<exists>a b. s = a @ p @ b)"
    (is "?L \<longleftrightarrow> ?A \<or> ?B")
  proof
    assume ?L
    then obtain a b where ab: "c # s = a @ p @ b" by blast
    then show "?A \<or> ?B" by (cases a) auto
  next
    assume "?A \<or> ?B"
    then show ?L by (metis append_Cons append_Nil)
  qed
  with Cons show ?case by (simp add: HasPrefix_iff)
qed auto

text \<open>\<open>strings.Split\<close> with a one-byte separator.\<close>

fun Split :: "char \<Rightarrow> string \<Rightarrow> string list" where
  "Split sep [] = [[]]"
| "Split sep (c # s) =
     (if c = sep then [] # Split sep s
      else case Split sep s of [] \<Rightarrow> [[c]] | seg # segs \<Rightarrow> (c # seg) # segs)"

fun Join :: "string list \<Rightarrow> string \<Rightarrow> string" where
  "Join [] sep = []"
| "Join [s] sep = s"
| "Join (s # t # ss) sep = s @ sep @ Join (t # ss) sep"

lemma Split_nonempty [simp]: "Split sep s \<noteq> []"
  by (induction s) (auto split: list.splits)

lemma Join_Split: "Join (Split sep s) [sep] = s"
proof (induction s)
  case (Cons c s)
  obtain seg segs where sp: "Split sep s = seg # segs"
    by (cases "Split sep s") auto
  with Cons show ?case by (cases segs) auto
qed simp

lemma Split_no_sep: "seg \<in> set (Split sep s) \<Longrightarrow> sep \<notin> set seg"
  by (induction s arbitrary: seg) (auto split: list.splits if_splits)

lemma Split_append_sep:
  "sep \<notin> set s \<Longrightarrow> Split sep (s @ sep # r) = s # Split sep r"
  by (induction s) auto

lemma Split_single: "sep \<notin> set s \<Longrightarrow> Split sep s = [s]"
  by (induction s) auto

lemma Split_Join:
  "ss \<noteq> [] \<Longrightarrow> \<forall>s \<in> set ss. sep \<notin> set s \<Longrightarrow> Split sep (Join ss [sep]) = ss"
  by (induction ss "[sep]" rule: Join.induct) (auto simp: Split_single Split_append_sep)

end
