(* ===== verification/GoTime.thy ===== *)
theory GoTime
  imports GoStrings "HOL-Library.Monad_Syntax"
begin

text \<open>
  What the program uses of Go's package \<open>time\<close>: instants and their comparison, the
  zero time, Unix seconds, durations.  An instant is Go's internal pair: whole seconds since
  1 January of year 1, 00:00 UTC (an \<open>int64\<close>), and nanoseconds.  A \<open>Time\<close> adds the
  offset of its location, which only formatting looks at.
\<close>

section \<open>Instants\<close>

datatype instant = Instant (ins_sec: int) (ins_nsec: int)

instantiation instant :: linorder
begin

definition less_eq_instant :: "instant \<Rightarrow> instant \<Rightarrow> bool" where
  "less_eq_instant a b \<longleftrightarrow>
     ins_sec a < ins_sec b \<or> (ins_sec a = ins_sec b \<and> ins_nsec a \<le> ins_nsec b)"

definition less_instant :: "instant \<Rightarrow> instant \<Rightarrow> bool" where
  "less_instant a b \<longleftrightarrow>
     ins_sec a < ins_sec b \<or> (ins_sec a = ins_sec b \<and> ins_nsec a < ins_nsec b)"

instance
  by standard (auto simp: less_eq_instant_def less_instant_def instant.expand)

end

lemma Instant_less_eq [simp]:
  "Instant a b \<le> Instant c d \<longleftrightarrow> a < c \<or> (a = c \<and> b \<le> d)"
  by (simp add: less_eq_instant_def)

lemma Instant_less [simp]:
  "Instant a b < Instant c d \<longleftrightarrow> a < c \<or> (a = c \<and> b < d)"
  by (simp add: less_instant_def)

section \<open>Time values\<close>

record time =
  t_inst :: instant
  t_off :: int  \<comment> \<open>offset of the location, in seconds east of UTC\<close>

definition zero_time :: time where
  "zero_time = \<lparr>t_inst = Instant 0 0, t_off = 0\<rparr>"

definition IsZero :: "time \<Rightarrow> bool" where
  "IsZero t \<longleftrightarrow> t_inst t = Instant 0 0"

definition After :: "time \<Rightarrow> time \<Rightarrow> bool" where
  "After t u \<longleftrightarrow> t_inst u < t_inst t"

definition Before :: "time \<Rightarrow> time \<Rightarrow> bool" where
  "Before t u \<longleftrightarrow> t_inst t < t_inst u"

text \<open>Seconds between year 1 and the Unix epoch.\<close>

definition unix_to_internal :: int where
  "unix_to_internal = 62135596800"

definition Unix :: "time \<Rightarrow> int" where
  "Unix t = wrap64 (ins_sec (t_inst t) - unix_to_internal)"

definition time_Unix :: "int \<Rightarrow> time" where
  "time_Unix s = \<lparr>t_inst = Instant (wrap64 (s + unix_to_internal)) 0, t_off = 0\<rparr>"

text \<open>\<open>Time.Add\<close> of a duration in nanoseconds; the seconds saturate at the ends of
  \<open>int64\<close> as \<open>addSec\<close> does.\<close>

definition saturate64 :: "int \<Rightarrow> int" where
  "saturate64 x = max (- max_int64) (min max_int64 x)"

definition Add :: "time \<Rightarrow> int \<Rightarrow> time" where
  "Add t d =
     (let n = ins_nsec (t_inst t) + d
      in t\<lparr>t_inst := Instant (saturate64 (ins_sec (t_inst t) + n div 1000000000)) (n mod 1000000000)\<rparr>)"

lemmas [time_simps] = IsZero_def After_def Before_def

lemma IsZero_zero_time [simp]: "IsZero zero_time"
  by (simp add: IsZero_def zero_time_def)

lemma After_irrefl [simp]: "\<not> After t t"
  by (simp add: After_def)

lemma After_zero_time: "After t zero_time \<longleftrightarrow> Instant 0 0 < t_inst t"
  by (simp add: After_def zero_time_def)


section \<open>The proleptic Gregorian calendar\<close>

text \<open>Days since 1 January of year 1; years before 1 are counted down.\<close>

definition leap_year :: "int \<Rightarrow> bool" where
  "leap_year y \<longleftrightarrow> y mod 4 = 0 \<and> (y mod 100 \<noteq> 0 \<or> y mod 400 = 0)"

definition days_before_year :: "int \<Rightarrow> int" where
  "days_before_year y = 365 * (y - 1) + (y - 1) div 4 - (y - 1) div 100 + (y - 1) div 400"

definition month_lengths :: "bool \<Rightarrow> int list" where
  "month_lengths leap = [31, if leap then 29 else 28, 31, 30, 31, 30, 31, 31, 30, 31, 30, 31]"

definition days_in_month :: "int \<Rightarrow> nat \<Rightarrow> int" where
  "days_in_month y m = month_lengths (leap_year y) ! (m - 1)"

definition days_before_month :: "bool \<Rightarrow> nat \<Rightarrow> int" where
  "days_before_month leap m = sum_list (take (m - 1) (month_lengths leap))"

definition days_of_date :: "int \<Rightarrow> nat \<Rightarrow> int \<Rightarrow> int" where
  "days_of_date y m d = days_before_year y + days_before_month (leap_year y) m + (d - 1)"

definition year_of_days :: "int \<Rightarrow> int" where
  "year_of_days n =
     (let g = (400 * n) div 146097 + 1
      in if days_before_year (g + 1) \<le> n then g + 1
         else if n < days_before_year g then g - 1 else g)"

fun month_and_day :: "int \<Rightarrow> int list \<Rightarrow> nat \<Rightarrow> nat \<times> int" where
  "month_and_day n [] m = (m, n + 1)"
| "month_and_day n (l # ls) m = (if n < l then (m, n + 1) else month_and_day (n - l) ls (Suc m))"

definition date_of_days :: "int \<Rightarrow> int \<times> nat \<times> int" where
  "date_of_days n =
     (let y = year_of_days n;
          (m, d) = month_and_day (n - days_before_year y) (month_lengths (leap_year y)) 1
      in (y, m, d))"

lemma div_add_1:
  assumes k: "0 < (k::int)"
  shows "(z + 1) div k = z div k + (if (z + 1) mod k = 0 then 1 else 0)"
proof -
  have z: "z = k * (z div k) + z mod k" by simp
  have r: "0 \<le> z mod k" "z mod k < k" using k by simp_all
  show ?thesis
  proof (cases "z mod k = k - 1")
    case True
    with z have "z + 1 = k * (z div k + 1) + 0" by (simp add: algebra_simps)
    then have "(z + 1) div k = z div k + 1" "(z + 1) mod k = 0"
      using k by (auto intro: int_div_pos_eq int_mod_pos_eq)
    then show ?thesis by simp
  next
    case False
    with r have r1: "0 \<le> z mod k + 1" "z mod k + 1 < k" by auto
    have z1: "z + 1 = k * (z div k) + (z mod k + 1)" using z by linarith
    have "(z + 1) div k = z div k" by (rule int_div_pos_eq [OF z1 r1])
    moreover have "(z + 1) mod k = z mod k + 1" by (rule int_mod_pos_eq [OF z1 r1])
    ultimately show ?thesis using r by simp
  qed
qed

lemma div_lower: "0 < (k::int) \<Longrightarrow> k * (z div k) \<le> z"
  using pos_mod_sign [of k z] mult_div_mod_eq [of k z] by linarith

lemma div_upper: "0 < (k::int) \<Longrightarrow> z < k * (z div k) + k"
  using pos_mod_bound [of k z] mult_div_mod_eq [of k z] by linarith

lemma year_step_aux:
  "365 * y + (a + i) - (b + j) + (c + k) = 365 * (y - 1) + a - b + c + (365 + i - j + (k :: int))"
  by (simp add: algebra_simps)

lemma dvd_100_400: "(100 :: int) dvd 400" and dvd_4_100: "(4 :: int) dvd 100"
  by simp_all

lemma leap_aux:
  "(r \<Longrightarrow> q) \<Longrightarrow> (q \<Longrightarrow> p) \<Longrightarrow>
     365 + (if p then 1 else 0) - (if q then 1 else 0) + (if r then 1 else 0)
       = (if p \<and> (\<not> q \<or> r) then 366 else (365 :: int))"
  by (cases p; cases q; cases r) simp_all

lemma days_before_year_Suc:
  "days_before_year (y + 1) = days_before_year y + (if leap_year y then 366 else 365)"
proof -
  have m: "y mod 400 = 0 \<Longrightarrow> y mod 100 = 0" "y mod 100 = 0 \<Longrightarrow> y mod 4 = 0"
    by (metis dvd_trans mod_eq_0_iff_dvd dvd_100_400, metis dvd_trans mod_eq_0_iff_dvd dvd_4_100)
  have d: "y div 4 = (y - 1) div 4 + (if y mod 4 = 0 then 1 else 0)"
    "y div 100 = (y - 1) div 100 + (if y mod 100 = 0 then 1 else 0)"
    "y div 400 = (y - 1) div 400 + (if y mod 400 = 0 then 1 else 0)"
    by (rule div_add_1 [where z = "y - 1", unfolded diff_add_cancel], simp)+
  have "days_before_year (y + 1) = 365 * y + y div 4 - y div 100 + y div 400"
    by (simp only: days_before_year_def add_diff_cancel_right')
  also have "\<dots> = days_before_year y + (365 + (if y mod 4 = 0 then 1 else 0)
      - (if y mod 100 = 0 then 1 else 0) + (if y mod 400 = 0 then 1 else 0))"
    unfolding d days_before_year_def by (rule year_step_aux)
  also have "365 + (if y mod 4 = 0 then 1 else 0) - (if y mod 100 = 0 then 1 else 0)
      + (if y mod 400 = 0 then 1 else 0) = (if leap_year y then 366 else (365 :: int))"
    unfolding leap_year_def by (rule leap_aux [OF m])
  finally show ?thesis .
qed

lemma days_before_year_mono:
  assumes "a \<le> b"
  shows "days_before_year a \<le> days_before_year b"
  using assms
proof (induction b rule: int_ge_induct)
  case (step b)
  then show ?case using days_before_year_Suc [of b] by (auto split: if_splits)
qed simp

lemma year_bounds_aux:
  assumes "4 * a \<le> z" "z < 4 * a + 4" "100 * b \<le> z" "z < 100 * b + 100"
    "400 * c \<le> z" "z < 400 * c + (400::int)"
  shows "146097 * z - 699 \<le> 400 * (365 * z + a - b + c)"
    and "400 * (365 * z + a - b + c) \<le> 146097 * z + 396"
  using assms by (simp_all add: algebra_simps)

lemma days_before_year_bounds:
  "146097 * (y - 1) - 699 \<le> 400 * days_before_year y"
  "400 * days_before_year y \<le> 146097 * (y - 1) + 396"
proof -
  define z where "z = y - 1"
  have b: "4 * (z div 4) \<le> z" "100 * (z div 100) \<le> z" "400 * (z div 400) \<le> z"
    by (rule div_lower, simp)+
  have c: "z < 4 * (z div 4) + 4" "z < 100 * (z div 100) + 100" "z < 400 * (z div 400) + 400"
    by (rule div_upper, simp)+
  note aux = year_bounds_aux [OF b(1) c(1) b(2) c(2) b(3) c(3)]
  show "146097 * (y - 1) - 699 \<le> 400 * days_before_year y"
    unfolding days_before_year_def z_def [symmetric] by (rule aux(1))
  show "400 * days_before_year y \<le> 146097 * (y - 1) + 396"
    unfolding days_before_year_def z_def [symmetric] by (rule aux(2))
qed

lemma year_of_days_correct:
  "days_before_year (year_of_days n) \<le> n \<and> n < days_before_year (year_of_days n + 1)"
proof -
  define z where "z = (400 * n) div 146097"
  have z: "146097 * z \<le> 400 * n" "400 * n < 146097 * z + 146097"
    using div_lower [of 146097 "400 * n"] div_upper [of 146097 "400 * n"] by (simp_all add: z_def)
  have "400 * days_before_year z \<le> 400 * n"
    using days_before_year_bounds(2) [of z] z(1) by (simp add: algebra_simps)
  then have lo: "days_before_year z \<le> n" by simp
  have "400 * n < 400 * days_before_year (z + 3)"
    using days_before_year_bounds(1) [of "z + 3"] z(2) by (simp add: algebra_simps)
  then have hi: "n < days_before_year (z + 3)" by simp
  have "year_of_days n = (if days_before_year (z + 2) \<le> n then z + 2
      else if n < days_before_year (z + 1) then z else z + 1)"
    by (simp add: year_of_days_def Let_def z_def add.commute)
  then show ?thesis using lo hi by (auto simp: add.commute)
qed

lemma year_of_days_unique:
  assumes "days_before_year y \<le> n" and "n < days_before_year (y + 1)"
  shows "year_of_days n = y"
proof (rule ccontr)
  assume "year_of_days n \<noteq> y"
  then consider "year_of_days n + 1 \<le> y" | "y + 1 \<le> year_of_days n" by linarith
  then show False
    using assms year_of_days_correct [of n] days_before_year_mono by cases fastforce+
qed

lemma month_cases:
  assumes "1 \<le> m" and "m \<le> 12"
  obtains "m = 1" | "m = 2" | "m = 3" | "m = 4" | "m = 5" | "m = 6"
    | "m = 7" | "m = 8" | "m = 9" | "m = 10" | "m = 11" | "m = (12::nat)"
proof -
  have "m = 1 \<or> m = 2 \<or> m = 3 \<or> m = 4 \<or> m = 5 \<or> m = 6
      \<or> m = 7 \<or> m = 8 \<or> m = 9 \<or> m = 10 \<or> m = 11 \<or> m = 12"
    using assms by presburger
  then show thesis using that by blast
qed

lemma month_and_day_correct:
  assumes "1 \<le> m" and "m \<le> 12" and "1 \<le> d" and "d \<le> month_lengths leap ! (m - 1)"
  shows "month_and_day (days_before_month leap m + (d - 1)) (month_lengths leap) 1 = (m, d)"
  using assms(1,2)
  by (cases rule: month_cases; use assms(3,4) in
      \<open>simp add: days_before_month_def month_lengths_def take_Cons' split: if_splits\<close>)

lemma days_in_year_bound:
  assumes "1 \<le> m" and "m \<le> 12" and "1 \<le> d" and "d \<le> month_lengths leap ! (m - 1)"
  shows "0 \<le> days_before_month leap m + (d - 1)
       \<and> days_before_month leap m + (d - 1) < (if leap then 366 else 365)"
  using assms(1,2)
  by (cases rule: month_cases; use assms(3,4) in
      \<open>simp add: days_before_month_def month_lengths_def take_Cons' split: if_splits\<close>)

theorem date_of_days_of_date:
  assumes "1 \<le> m" and "m \<le> 12" and "1 \<le> d" and "d \<le> days_in_month y m"
  shows "date_of_days (days_of_date y m d) = (y, m, d)"
proof -
  have d: "d \<le> month_lengths (leap_year y) ! (m - 1)"
    using assms(4) by (simp add: days_in_month_def)
  note b = days_in_year_bound [OF assms(1-3) d]
  have y: "year_of_days (days_of_date y m d) = y"
  proof (rule year_of_days_unique)
    show "days_before_year y \<le> days_of_date y m d"
      using b by (simp add: days_of_date_def)
    show "days_of_date y m d < days_before_year (y + 1)"
      using b by (simp add: days_of_date_def days_before_year_Suc split: if_splits)
  qed
  have "days_of_date y m d - days_before_year y = days_before_month (leap_year y) m + (d - 1)"
    by (simp add: days_of_date_def)
  then show ?thesis
    using month_and_day_correct [OF assms(1-3) d] by (simp add: date_of_days_def y Let_def)
qed


section \<open>time.Date and Time.Format\<close>

definition secs_per_day :: int where
  "secs_per_day = 86400"

text \<open>\<open>time.Date\<close> in a fixed zone: months are normalised into years; days, hours, minutes
  and seconds beyond their ranges carry over, all in 64-bit arithmetic.\<close>

definition Date :: "int \<Rightarrow> int \<Rightarrow> int \<Rightarrow> int \<Rightarrow> int \<Rightarrow> int \<Rightarrow> int \<Rightarrow> time" where
  "Date year month day hour minute sec off =
     (let y = year + (month - 1) div 12;
          m = nat ((month - 1) mod 12) + 1
      in \<lparr>t_inst = Instant (wrap64 (days_of_date y m day * secs_per_day
                            + hour * 3600 + minute * 60 + sec - off)) 0,
          t_off = off\<rparr>)"

text \<open>\<open>Time.Sub\<close> (both times without nanoseconds differ by whole seconds; the result in
  nanoseconds saturates) and \<open>Duration.Seconds\<close> truncated to an integer.\<close>

definition Sub :: "time \<Rightarrow> time \<Rightarrow> int" where
  "Sub t u =
     (let d = (ins_sec (t_inst t) - ins_sec (t_inst u)) * 1000000000
              + (ins_nsec (t_inst t) - ins_nsec (t_inst u))
      in max min_int64 (min max_int64 d))"

definition Format_offset :: "int \<Rightarrow> string" where
  "Format_offset off =
     (let mins = nat \<bar>off\<bar> div 60
      in (if off < 0 \<and> 0 < mins then ''-'' else ''+'') @ pad_nat 2 (mins div 60) @ '':'' @ pad_nat 2 (mins mod 60))"

text \<open>\<open>t.Format("2006-01-02T15:04:05-07:00")\<close>\<close>

definition Format_when :: "time \<Rightarrow> string" where
  "Format_when t =
     (let local = ins_sec (t_inst t) + t_off t;
          (y, m, d) = date_of_days (local div secs_per_day);
          s = nat (local mod secs_per_day)
      in (if y < 0 then ''-'' else []) @ pad_nat 4 (nat \<bar>y\<bar>) @ ''-'' @ pad_nat 2 m @ ''-'' @ pad_nat 2 (nat d)
         @ ''T'' @ pad_nat 2 (s div 3600) @ '':'' @ pad_nat 2 (s mod 3600 div 60) @ '':''
         @ pad_nat 2 (s mod 60) @ Format_offset (t_off t))"

section \<open>time.Parse with the RFC 3339 layout\<close>

definition skip :: "char \<Rightarrow> string \<Rightarrow> string option" where
  "skip c s = (case s of [] \<Rightarrow> None | x # r \<Rightarrow> if x = c then Some r else None)"

text \<open>One or two digits; exactly two if \<open>fixed\<close>.\<close>

definition getnum :: "bool \<Rightarrow> string \<Rightarrow> (nat \<times> string) option" where
  "getnum fixed s =
     (case s of
        [] \<Rightarrow> None
      | a # r \<Rightarrow>
          if \<not> is_digit a then None
          else (case r of
              [] \<Rightarrow> if fixed then None else Some (digit_val a, [])
            | b # r' \<Rightarrow>
                if is_digit b then Some (10 * digit_val a + digit_val b, r')
                else if fixed then None else Some (digit_val a, r)))"

definition get_year :: "string \<Rightarrow> (nat \<times> string) option" where
  "get_year s =
     (if 4 \<le> length s \<and> list_all is_digit (take 4 s)
      then Some (digits_value (take 4 s), drop 4 s) else None)"

text \<open>A fraction of a second that the layout does not mention: a dot or comma and at least one
  digit; nine digits count, the rest are skipped.\<close>

definition get_fraction :: "string \<Rightarrow> nat \<times> string" where
  "get_fraction s =
     (case s of
        c # d # r \<Rightarrow>
          if (c = CHR ''.'' \<or> c = CHR '','') \<and> is_digit d
          then (let ds = takeWhile is_digit (d # r); n = take 9 ds
                in (digits_value n * 10 ^ (9 - length n), dropWhile is_digit (d # r)))
          else (0, s)
      | _ \<Rightarrow> (0, s))"

definition get_zone :: "string \<Rightarrow> (int \<times> string) option" where
  "get_zone s =
     (case s of
        [] \<Rightarrow> None
      | x # r \<Rightarrow>
          if x = CHR ''Z'' then Some (0, r)
          else if length s < 6 \<or> s ! 3 \<noteq> CHR '':'' then None
          else do {
            (hr, _) \<leftarrow> getnum True (take 2 (drop 1 s));
            (mm, _) \<leftarrow> getnum True (take 2 (drop 4 s));
            (if hr > 24 \<or> mm > 60 then None else Some ());
            (if x = CHR ''+'' then Some (int (hr * 60 + mm) * 60, drop 6 s)
             else if x = CHR ''-'' then Some (- (int (hr * 60 + mm) * 60), drop 6 s)
             else None)
          })"

definition check :: "bool \<Rightarrow> unit option" where
  "check b = (if b then Some () else None)"

definition Parse_RFC3339 :: "string \<Rightarrow> time option" where
  "Parse_RFC3339 s = do {
     (year, s) \<leftarrow> get_year s;
     s \<leftarrow> skip CHR ''-'' s;
     (month, s) \<leftarrow> getnum True s;
     check (1 \<le> month \<and> month \<le> 12);
     s \<leftarrow> skip CHR ''-'' s;
     (day, s) \<leftarrow> getnum True s;
     s \<leftarrow> skip CHR ''T'' s;
     (hour, s) \<leftarrow> getnum False s;
     check (hour < 24);
     s \<leftarrow> skip CHR '':'' s;
     (minute, s) \<leftarrow> getnum True s;
     check (minute < 60);
     s \<leftarrow> skip CHR '':'' s;
     (sec, s) \<leftarrow> getnum True s;
     check (sec < 60);
     (let (nsec, s) = get_fraction s in do {
       (off, s) \<leftarrow> get_zone s;
       check (s = []);
       check (1 \<le> day \<and> int day \<le> days_in_month (int year) month);
       Some \<lparr>t_inst = Instant (days_of_date (int year) month (int day) * secs_per_day
                        + int hour * 3600 + int minute * 60 + int sec - off) (int nsec),
             t_off = off\<rparr>
     })
   }"

text \<open>Go keeps a parsed offset only in the location; a time is printable again when its
  offset is a whole number of minutes below 25 hours, it has no nanoseconds and its local
  year is between 0 and 9999.\<close>

definition printable_time :: "time \<Rightarrow> bool" where
  "printable_time t \<longleftrightarrow>
     ins_nsec (t_inst t) = 0 \<and> t_off t mod 60 = 0 \<and> \<bar>t_off t\<bar> < 25 * 3600
   \<and> days_of_date 0 1 1 * secs_per_day \<le> ins_sec (t_inst t) + t_off t
   \<and> ins_sec (t_inst t) + t_off t < days_of_date 10000 1 1 * secs_per_day"

lemma getnum_pad: "n < 100 \<Longrightarrow> getnum fixed (pad_nat 2 n @ s) = Some (n, s)"
  by (simp add: getnum_def pad_nat_2 div_less)

lemma skip_same: "skip c (c # s) = Some s"
  by (simp add: skip_def)

lemma get_year_pad: "n < 10000 \<Longrightarrow> get_year (pad_nat 4 n @ s) = Some (n, s)"
proof -
  assume n: "n < 10000"
  have "length (pad_nat 4 n) = 4" using n by (simp add: pad_nat_4)
  then show ?thesis using pad_nat_digits [of 4 n] by (simp add: get_year_def)
qed

lemma int_mult_60: "k = 60 * a + b \<Longrightarrow> int k * 60 = 3600 * int a + int b * 60"
  by simp

lemma get_zone_Format:
  assumes "off mod 60 = 0" and "\<bar>off\<bar> < 25 * 3600"
  shows "get_zone (Format_offset off) = Some (off, [])"
proof -
  define k where "k = nat \<bar>off\<bar> div 60"
  have k: "int k * 60 = \<bar>off\<bar>"
  proof -
    obtain q where q: "off = 60 * q" using assms(1) by (auto simp: mod_eq_0_iff_dvd elim: dvdE)
    then have "nat \<bar>off\<bar> = 60 * nat \<bar>q\<bar>" by (simp add: abs_mult nat_mult_distrib)
    then show ?thesis using q by (simp add: k_def abs_mult)
  qed
  have "k div 60 < 25" "k mod 60 < 60" using k assms(2) by auto
  then have p: "pad_nat 2 (k div 60) = [digit_char (k div 60 div 10), digit_char (k div 60 mod 10)]"
    "pad_nat 2 (k mod 60) = [digit_char (k mod 60 div 10), digit_char (k mod 60 mod 10)]"
    by (simp_all add: pad_nat_2)
  have g: "getnum True [digit_char (k div 60 div 10), digit_char (k div 60 mod 10)] = Some (k div 60, [])"
    "getnum True [digit_char (k mod 60 div 10), digit_char (k mod 60 mod 10)] = Some (k mod 60, [])"
    using getnum_pad [of "k div 60" True "[]"] getnum_pad [of "k mod 60" True "[]"]
      \<open>k div 60 < 25\<close> \<open>k mod 60 < 60\<close> p by simp_all
  have "k = 60 * (k div 60) + k mod 60" by simp
  then have sp: "int k * 60 = 3600 * int (k div 60) + int (k mod 60) * 60"
    by (rule int_mult_60)
  show ?thesis
    using k \<open>k div 60 < 25\<close> \<open>k mod 60 < 60\<close> sp
    by (auto simp: Format_offset_def Let_def k_def [symmetric] p get_zone_def g)
qed

lemma month_and_day_inverse:
  assumes "month_and_day n ls k = (m, d)" and "0 \<le> n" and "n < sum_list ls"
  shows "\<exists>i < length ls. m = k + i \<and> 1 \<le> d \<and> d \<le> ls ! i \<and> sum_list (take i ls) + (d - 1) = n"
  using assms
proof (induction n ls k rule: month_and_day.induct)
  case (2 n l ls k)
  show ?case
  proof (cases "n < l")
    case True
    with 2 show ?thesis by (intro exI [of _ 0]) auto
  next
    case False
    with 2 obtain i where "i < length ls" "m = Suc k + i" "1 \<le> d" "d \<le> ls ! i"
      "sum_list (take i ls) + (d - 1) = n - l" by auto
    then show ?thesis by (intro exI [of _ "Suc i"]) auto
  qed
qed simp

lemma days_of_date_of_days:
  assumes "date_of_days n = (y, m, d)"
  shows "days_of_date y m d = n \<and> 1 \<le> m \<and> m \<le> 12 \<and> 1 \<le> d \<and> d \<le> days_in_month y m
       \<and> y = year_of_days n"
proof -
  have y: "y = year_of_days n"
    using assms by (auto simp: date_of_days_def Let_def split: prod.splits)
  let ?r = "n - days_before_year y"
  have md: "month_and_day ?r (month_lengths (leap_year y)) 1 = (m, d)"
    using assms y by (auto simp: date_of_days_def Let_def split: prod.splits)
  have r: "0 \<le> ?r" "?r < sum_list (month_lengths (leap_year y))"
    using year_of_days_correct [of n] days_before_year_Suc [of y]
    by (auto simp: y month_lengths_def split: if_splits)
  obtain i where i: "i < length (month_lengths (leap_year y))" "m = 1 + i" "1 \<le> d"
    "d \<le> month_lengths (leap_year y) ! i" "sum_list (take i (month_lengths (leap_year y))) + (d - 1) = ?r"
    using month_and_day_inverse [OF md r] by auto
  then show ?thesis
    using y by (simp add: days_of_date_def days_before_month_def days_in_month_def)
      (simp add: month_lengths_def)
qed

lemma year_of_days_range:
  assumes "days_before_year a \<le> n" and "n < days_before_year b"
  shows "a \<le> year_of_days n \<and> year_of_days n < b"
proof (rule ccontr)
  assume "\<not> ?thesis"
  then consider "year_of_days n + 1 \<le> a" | "b \<le> year_of_days n" by linarith
  then show False
    using assms year_of_days_correct [of n] days_before_year_mono by cases fastforce+
qed

lemma quotient_le: "a * 86400 \<le> l \<Longrightarrow> l < 86400 * q + (86400 :: int) \<Longrightarrow> a \<le> q"
  by simp

lemma quotient_less: "l < a * 86400 \<Longrightarrow> 86400 * q \<le> (l :: int) \<Longrightarrow> q < a"
  by simp

lemma days_in_month_le: "1 \<le> m \<Longrightarrow> m \<le> 12 \<Longrightarrow> days_in_month y m \<le> 31"
  by (cases rule: month_cases [of m]; simp add: days_in_month_def month_lengths_def)

lemma hms_sum: "s div 3600 * 3600 + s mod 3600 div 60 * 60 + s mod 60 = (s :: nat)"
proof -
  have "s mod 60 = s mod 3600 mod 60" by (simp add: mod_mod_cancel)
  then have "s mod 3600 div 60 * 60 + s mod 60 = s mod 3600" by simp
  then show ?thesis by (metis add.assoc div_mult_mod_eq)
qed

lemma hms_sum_int:
  "int (s div 3600) * 3600 + int (s mod 3600 div 60) * 60 + int (s mod 60) = int s"
proof -
  have "int (s div 3600 * 3600 + s mod 3600 div 60 * 60 + s mod 60) = int s"
    by (simp only: hms_sum)
  then show ?thesis by (simp only: of_nat_add of_nat_mult of_nat_numeral)
qed

lemma get_fraction_Format: "get_fraction (Format_offset off) = (0, Format_offset off)"
  by (auto simp: Format_offset_def get_fraction_def Let_def split: list.splits)

text \<open>Printing a time and parsing it back gives the same time.\<close>

lemma Parse_Format:
  assumes "printable_time t"
  shows "Parse_RFC3339 (Format_when t) = Some t"
proof -
  define loc where "loc = ins_sec (t_inst t) + t_off t"
  define s where "s = nat (loc mod secs_per_day)"
  obtain y m d where ymd: "date_of_days (loc div secs_per_day) = (y, m, d)"
    by (cases "date_of_days (loc div secs_per_day)") auto
  note inv = days_of_date_of_days [OF ymd]
  have off: "t_off t mod 60 = 0" "\<bar>t_off t\<bar> < 25 * 3600" and ns: "ins_nsec (t_inst t) = 0"
    using assms by (simp_all add: printable_time_def)
  have "days_before_year 0 * 86400 \<le> loc" "loc < days_before_year 10000 * 86400"
    using assms by (simp_all add: printable_time_def loc_def days_of_date_def
        days_before_month_def secs_per_day_def)
  then have "days_before_year 0 \<le> loc div secs_per_day" "loc div secs_per_day < days_before_year 10000"
    unfolding secs_per_day_def
    using quotient_le [OF _ div_upper [of 86400 loc]] quotient_less [OF _ div_lower [of 86400 loc]]
    by simp_all
  then have y: "0 \<le> y" "y < 10000" using year_of_days_range inv by auto
  have s: "s < 86400" "int s = loc mod secs_per_day"
    by (auto simp: s_def secs_per_day_def)
  have d: "0 \<le> d" "nat d < 100" "m < 100"
    using inv days_in_month_le [of m y] by auto
  have h: "s div 3600 < 24" "s mod 3600 div 60 < 60" "s mod 60 < 60"
    using s(1) by (simp_all add: div_less_iff_less_mult)
  have F: "Format_when t =
      pad_nat 4 (nat y) @ CHR ''-'' # pad_nat 2 m @ CHR ''-'' # pad_nat 2 (nat d) @ CHR ''T'' #
      pad_nat 2 (s div 3600) @ CHR '':'' # pad_nat 2 (s mod 3600 div 60) @ CHR '':'' #
      pad_nat 2 (s mod 60) @ Format_offset (t_off t)"
    using y by (simp add: Format_when_def ymd Let_def loc_def [symmetric] s_def [symmetric])
  have t: "days_of_date y m d * secs_per_day + int (s div 3600) * 3600
      + int (s mod 3600 div 60) * 60 + int (s mod 60) - t_off t = ins_sec (t_inst t)"
  proof -
    have "int (s div 3600) * 3600 + int (s mod 3600 div 60) * 60 + int (s mod 60) = loc mod secs_per_day"
      unfolding s(2) [symmetric] by (rule hms_sum_int)
    moreover have "days_of_date y m d * secs_per_day + loc mod secs_per_day = loc"
      unfolding inv [THEN conjunct1] by simp
    ultimately show ?thesis by (simp add: loc_def)
  qed
  have md: "1 \<le> m" "m \<le> 12" "1 \<le> nat d" "d \<le> days_in_month y m"
    using inv by auto
  have ny: "nat y < 10000" "s mod 60 < 100" using y h by simp_all
  have tt: "\<lparr>t_inst = Instant (ins_sec (t_inst t)) 0, t_off = t_off t\<rparr> = t"
    using ns by (cases t; cases "t_inst t") simp
  show ?thesis
    unfolding F Parse_RFC3339_def
    using y ny d h md t tt off
    by (simp add: get_year_pad getnum_pad getnum_pad [OF ny(2)] skip_same check_def get_fraction_Format get_zone_Format)
qed

end
