(* ===== verification/LruCache.thy ===== *)
theory LruCache
  imports GoTime
begin

text \<open>
  \<open>cache.go\<close>: the LRU response cache.  The code keeps a doubly linked list of elements
  (package \<open>container/list\<close>) and a map from keys to pointers into it; both are modelled,
  with the elements in a heap indexed by their addresses.  The abstract specification is an
  association list in recency order; the simulation lemmas say that every operation
  of the pointer structure implements the operation on the association list.
\<close>

section \<open>The state of the cache\<close>

type_synonym header = "(string \<times> string list) list"  \<comment> \<open>\<open>http.Header\<close>\<close>

record cache_entry =
  statusCode :: int
  header :: header
  body :: bytes
  expiresAt :: time

definition expired :: "time \<Rightarrow> cache_entry \<Rightarrow> bool" where
  "expired now e \<longleftrightarrow> \<not> IsZero (expiresAt e) \<and> After now (expiresAt e)"

record lru_item =
  item_key :: string
  item_entry :: cache_entry

type_synonym element = nat  \<comment> \<open>the address of a \<open>list.Element\<close>\<close>

record cache =
  cache_cap :: int
  items :: "string \<rightharpoonup> element"
  lru_list :: "element list"  \<comment> \<open>front (most recently used) to back\<close>
  elements :: "element \<rightharpoonup> lru_item"  \<comment> \<open>the \<open>Value\<close> of every allocated element\<close>
  next_element :: element

definition NewCache :: "int \<Rightarrow> cache" where
  "NewCache c = \<lparr>cache_cap = c, items = Map.empty, lru_list = [], elements = Map.empty,
     next_element = 0\<rparr>"

section \<open>The list operations of container/list\<close>

definition list_Remove :: "element \<Rightarrow> cache \<Rightarrow> cache" where
  "list_Remove el c = c\<lparr>lru_list := remove1 el (lru_list c)\<rparr>"

definition list_MoveToFront :: "element \<Rightarrow> cache \<Rightarrow> cache" where
  "list_MoveToFront el c = c\<lparr>lru_list := el # remove1 el (lru_list c)\<rparr>"

definition list_Back :: "cache \<Rightarrow> element option" where
  "list_Back c = (if lru_list c = [] then None else Some (last (lru_list c)))"

definition list_PushFront :: "lru_item \<Rightarrow> cache \<Rightarrow> element \<times> cache" where
  "list_PushFront it c =
     (let el = next_element c
      in (el, c\<lparr>lru_list := el # lru_list c, elements := (elements c)(el \<mapsto> it),
                next_element := Suc el\<rparr>))"

definition delete_item :: "string \<Rightarrow> cache \<Rightarrow> cache" where
  "delete_item k c = c\<lparr>items := (items c)(k := None)\<rparr>"

definition value_of :: "cache \<Rightarrow> element \<Rightarrow> lru_item" where
  "value_of c el = the (elements c el)"

section \<open>The operations of the cache\<close>

definition Cache_Get :: "time \<Rightarrow> string \<Rightarrow> cache \<Rightarrow> cache_entry option \<times> cache" where
  "Cache_Get now key c =
     (if cache_cap c \<le> 0 then (None, c)
      else case items c key of
        None \<Rightarrow> (None, c)
      | Some el \<Rightarrow>
          (let item = value_of c el
           in if expired now (item_entry item)
              then (None, delete_item key (list_Remove el c))
              else (Some (item_entry item), list_MoveToFront el c)))"

definition Cache_Set :: "string \<Rightarrow> cache_entry \<Rightarrow> cache \<Rightarrow> cache" where
  "Cache_Set key entry c =
     (if cache_cap c \<le> 0 then c
      else case items c key of
        Some el \<Rightarrow>
          (let c' = list_MoveToFront el c
           in c'\<lparr>elements := (elements c')(el \<mapsto> (value_of c' el)\<lparr>item_entry := entry\<rparr>)\<rparr>)
      | None \<Rightarrow>
          (let c1 =
             (if int (length (lru_list c)) \<ge> cache_cap c
              then case list_Back c of
                None \<Rightarrow> c
              | Some oldest \<Rightarrow> delete_item (item_key (value_of c oldest)) (list_Remove oldest c)
              else c);
             (el, c2) = list_PushFront \<lparr>item_key = key, item_entry = entry\<rparr> c1
           in c2\<lparr>items := (items c2)(key \<mapsto> el)\<rparr>))"

lemmas [cache_simps] =
  list_Remove_def list_MoveToFront_def list_Back_def list_PushFront_def delete_item_def value_of_def

section \<open>The invariant of the pointer structure\<close>

definition key_of :: "cache \<Rightarrow> element \<Rightarrow> string" where
  "key_of c el = item_key (value_of c el)"

definition cache_inv :: "cache \<Rightarrow> bool" where
  "cache_inv c \<longleftrightarrow>
     distinct (lru_list c)
   \<and> (\<forall>el \<in> set (lru_list c). elements c el \<noteq> None \<and> el < next_element c)
   \<and> (\<forall>k el. items c k = Some el \<longleftrightarrow> el \<in> set (lru_list c) \<and> key_of c el = k)
   \<and> int (length (lru_list c)) \<le> max 0 (cache_cap c)"

section \<open>The abstract specification: an association list in recency order\<close>

type_synonym lru = "(string \<times> cache_entry) list"

definition abs_cache :: "cache \<Rightarrow> lru" where
  "abs_cache c = map (\<lambda>el. (key_of c el, item_entry (value_of c el))) (lru_list c)"

definition lru_get :: "time \<Rightarrow> string \<Rightarrow> lru \<Rightarrow> cache_entry option \<times> lru" where
  "lru_get now k l =
     (case map_of l k of
        None \<Rightarrow> (None, l)
      | Some e \<Rightarrow> if expired now e then (None, del_key k l) else (Some e, (k, e) # del_key k l))"

definition lru_set :: "int \<Rightarrow> string \<Rightarrow> cache_entry \<Rightarrow> lru \<Rightarrow> lru" where
  "lru_set n k e l =
     (if n \<le> 0 then l
      else (k, e) # (if k \<in> fst ` set l then del_key k l
                     else if n \<le> int (length l) then butlast l else l))"


section \<open>Consequences of the invariant\<close>

lemma inv_items: "cache_inv c \<Longrightarrow> items c k = Some el \<longleftrightarrow> el \<in> set (lru_list c) \<and> key_of c el = k"
  by (simp add: cache_inv_def)

lemma inv_inj_key:
  assumes "cache_inv c"
  shows "inj_on (key_of c) (set (lru_list c))"
proof (rule inj_onI)
  fix a b
  assume "a \<in> set (lru_list c)" "b \<in> set (lru_list c)" "key_of c a = key_of c b"
  then have "items c (key_of c a) = Some a" "items c (key_of c a) = Some b"
    by (auto simp: inv_items [OF assms])
  then show "a = b" by simp
qed

lemma inv_lookup:
  assumes "cache_inv c"
  shows "map_of (abs_cache c) k = map_option (\<lambda>el. item_entry (value_of c el)) (items c k)"
proof (cases "items c k")
  case None
  then have "\<forall>el \<in> set (lru_list c). key_of c el \<noteq> k"
    using inv_items [OF assms] by (metis option.distinct(1))
  then have "map_of (abs_cache c) k = None"
    by (auto simp: abs_cache_def map_of_eq_None_iff)
  with None show ?thesis by simp
next
  case (Some el)
  have d: "distinct (keys_of (abs_cache c))"
    using assms inv_inj_key [OF assms]
    by (simp add: abs_cache_def o_def distinct_map cache_inv_def)
  from Some have "(k, item_entry (value_of c el)) \<in> set (abs_cache c)"
    by (auto simp: inv_items [OF assms] abs_cache_def image_iff)
  then have "map_of (abs_cache c) k = Some (item_entry (value_of c el))"
    using d by simp
  with Some show ?thesis by simp
qed

lemma abs_distinct: "cache_inv c \<Longrightarrow> distinct (keys_of (abs_cache c))"
  using inv_inj_key [of c] by (simp add: abs_cache_def o_def distinct_map cache_inv_def)

lemma abs_mem: "cache_inv c \<Longrightarrow> k \<in> fst ` set (abs_cache c) \<longleftrightarrow> items c k \<noteq> None"
  using inv_lookup [of c k] map_of_eq_None_iff [of "abs_cache c" k] by (cases "items c k") auto

lemma abs_length: "length (abs_cache c) = length (lru_list c)"
  by (simp add: abs_cache_def)

lemma abs_cap: "cache_inv c \<Longrightarrow> int (length (abs_cache c)) \<le> max 0 (cache_cap c)"
  by (simp add: abs_length cache_inv_def)

lemma abs_disabled: "cache_inv c \<Longrightarrow> cache_cap c \<le> 0 \<Longrightarrow> abs_cache c = []"
  using abs_cap [of c] by simp

lemma abs_remove1:
  assumes "cache_inv c" and "el \<in> set (lru_list c)"
  shows "map (\<lambda>el. (key_of c el, item_entry (value_of c el))) (remove1 el (lru_list c))
           = del_key (key_of c el) (abs_cache c)"
proof -
  have eq: "remove1 el (lru_list c) = filter (\<lambda>x. key_of c x \<noteq> key_of c el) (lru_list c)"
    using assms inv_inj_key [OF assms(1)]
    by (auto simp: cache_inv_def distinct_remove1_removeAll removeAll_filter_not_eq
        dest: inj_onD intro!: filter_cong)
  show ?thesis
    by (simp add: eq abs_cache_def del_key_def filter_map o_def)
qed

section \<open>What the pointer manipulations do to the invariant and the abstraction\<close>

lemma NewCache_inv: "cache_inv (NewCache n)"
  by (simp add: NewCache_def cache_inv_def)

lemma NewCache_cap [simp]: "cache_cap (NewCache n) = n"
  by (simp add: NewCache_def)

lemma NewCache_abs: "abs_cache (NewCache n) = []"
  by (simp add: NewCache_def abs_cache_def)

text \<open>Removing an element together with its map entry.\<close>

definition drop_element :: "element \<Rightarrow> cache \<Rightarrow> cache" where
  "drop_element el c = delete_item (key_of c el) (list_Remove el c)"

lemma drop_inv:
  assumes inv: "cache_inv c" and mem: "el \<in> set (lru_list c)"
  shows "cache_inv (drop_element el c)"
proof -
  have d: "distinct (lru_list c)" using inv by (simp add: cache_inv_def)
  let ?c = "drop_element el c"
  have l: "lru_list ?c = remove1 el (lru_list c)"
    and i: "items ?c = (items c)(key_of c el := None)"
    and e: "elements ?c = elements c" and n: "next_element ?c = next_element c"
    and cp: "cache_cap ?c = cache_cap c"
    by (simp_all add: drop_element_def cache_simps)
  have k: "key_of ?c x = key_of c x" for x
    by (simp add: key_of_def value_of_def e)
  have ks: "key_of c x = key_of c el \<longleftrightarrow> x = el" if "x \<in> set (lru_list c)" for x
    using that mem inv_inj_key [OF inv] by (metis inj_onD)
  have "items ?c k = Some x \<longleftrightarrow> x \<in> set (lru_list ?c) \<and> key_of ?c x = k" for k x
    using d ks mem by (cases "k = key_of c el") (auto simp: i l k inv_items [OF inv])
  moreover have "int (length (lru_list ?c)) \<le> max 0 (cache_cap ?c)"
    using inv length_remove1_mem [OF mem] by (simp add: l cp cache_inv_def)
  ultimately show ?thesis
    using inv d by (auto simp: cache_inv_def l e n)
qed

lemma drop_abs:
  assumes "cache_inv c" and "el \<in> set (lru_list c)"
  shows "abs_cache (drop_element el c) = del_key (key_of c el) (abs_cache c)"
  using abs_remove1 [OF assms]
  by (simp add: abs_cache_def drop_element_def cache_simps key_of_def)

text \<open>Moving an element to the front.\<close>

lemma front_inv:
  assumes inv: "cache_inv c" and mem: "el \<in> set (lru_list c)"
  shows "cache_inv (list_MoveToFront el c)"
proof -
  have d: "distinct (lru_list c)" using inv by (simp add: cache_inv_def)
  have len: "Suc (length (remove1 el (lru_list c))) = length (lru_list c)"
    by (rule length_remove1_mem [OF mem])
  have st: "set (el # remove1 el (lru_list c)) = set (lru_list c)"
    using d mem by auto
  have "cache_cap (list_MoveToFront el c) = cache_cap c"
    and "items (list_MoveToFront el c) = items c"
    and "elements (list_MoveToFront el c) = elements c"
    and "next_element (list_MoveToFront el c) = next_element c"
    and l: "lru_list (list_MoveToFront el c) = el # remove1 el (lru_list c)"
    by (simp_all add: list_MoveToFront_def)
  moreover have "length (lru_list (list_MoveToFront el c)) = length (lru_list c)"
    unfolding l using len by simp
  moreover have "set (lru_list (list_MoveToFront el c)) = set (lru_list c)"
    unfolding l by (rule st)
  moreover have "distinct (lru_list (list_MoveToFront el c))"
    unfolding l using d by simp
  ultimately show ?thesis
    using inv by (simp add: cache_inv_def key_of_def value_of_def)
qed

lemma front_abs:
  assumes "cache_inv c" and "el \<in> set (lru_list c)"
  shows "abs_cache (list_MoveToFront el c)
           = (key_of c el, item_entry (value_of c el)) # del_key (key_of c el) (abs_cache c)"
proof -
  have "abs_cache (list_MoveToFront el c)
          = map (\<lambda>el. (key_of c el, item_entry (value_of c el))) (el # remove1 el (lru_list c))"
    by (simp add: abs_cache_def list_MoveToFront_def key_of_def value_of_def)
  then show ?thesis by (simp add: abs_remove1 [OF assms])
qed

text \<open>Overwriting the entry of an element in place.\<close>

definition write_entry :: "element \<Rightarrow> cache_entry \<Rightarrow> cache \<Rightarrow> cache" where
  "write_entry el e c =
     c\<lparr>elements := (elements c)(el \<mapsto> (value_of c el)\<lparr>item_entry := e\<rparr>)\<rparr>"

lemma write_entry_key: "key_of (write_entry el e c) x = key_of c x"
  by (simp add: write_entry_def key_of_def value_of_def)

lemma write_inv:
  assumes "cache_inv c" and "el \<in> set (lru_list c)"
  shows "cache_inv (write_entry el e c)"
  using assms by (auto simp: cache_inv_def write_entry_key) (auto simp: write_entry_def)

lemma write_abs_head:
  assumes "cache_inv c" and "lru_list c = el # els"
  shows "abs_cache (write_entry el e c)
           = (key_of c el, e) # tl (abs_cache c)"
proof -
  have "el \<notin> set els" using assms by (auto simp: cache_inv_def)
  then show ?thesis
    using assms(2)
    by (auto simp: abs_cache_def write_entry_key) (auto simp: write_entry_def value_of_def)
qed

text \<open>Pushing a new element for a key that is not in the cache.\<close>

definition push_item :: "string \<Rightarrow> cache_entry \<Rightarrow> cache \<Rightarrow> cache" where
  "push_item k e c =
     (let (el, c2) = list_PushFront \<lparr>item_key = k, item_entry = e\<rparr> c
      in c2\<lparr>items := (items c2)(k \<mapsto> el)\<rparr>)"

lemma push_item_eq:
  "push_item k e c =
     c\<lparr>items := (items c)(k \<mapsto> next_element c), lru_list := next_element c # lru_list c,
       elements := (elements c)(next_element c \<mapsto> \<lparr>item_key = k, item_entry = e\<rparr>),
       next_element := Suc (next_element c)\<rparr>"
  by (simp add: push_item_def list_PushFront_def Let_def)

lemma push_inv:
  assumes inv: "cache_inv c" and fresh: "items c k = None"
    and room: "int (length (lru_list c)) < cache_cap c"
  shows "cache_inv (push_item k e c)"
proof -
  have new: "next_element c \<notin> set (lru_list c)"
    using inv by (auto simp: cache_inv_def)
  have other: "key_of c x \<noteq> k" if "x \<in> set (lru_list c)" for x
    using that fresh inv_items [OF inv] by (metis option.distinct(1))
  have keys: "key_of (push_item k e c) x = key_of c x" if "x \<in> set (lru_list c)" for x
    using that new by (auto simp: push_item_eq value_of_def key_of_def)
  have keyn: "key_of (push_item k e c) (next_element c) = k"
    by (simp add: push_item_eq value_of_def key_of_def)
  have l: "lru_list (push_item k e c) = next_element c # lru_list c"
    and i: "items (push_item k e c) = (items c)(k \<mapsto> next_element c)"
    and els: "elements (push_item k e c) = (elements c)(next_element c \<mapsto> \<lparr>item_key = k, item_entry = e\<rparr>)"
    and n: "next_element (push_item k e c) = Suc (next_element c)"
    and cp: "cache_cap (push_item k e c) = cache_cap c"
    by (simp_all add: push_item_eq)
  show ?thesis
    unfolding cache_inv_def l i els n cp
    using inv new other keys keyn room
    by (auto simp: cache_inv_def less_Suc_eq)
qed

lemma push_abs:
  assumes "cache_inv c"
  shows "abs_cache (push_item k e c) = (k, e) # abs_cache c"
proof -
  have "next_element c \<notin> set (lru_list c)"
    using assms by (auto simp: cache_inv_def)
  then show ?thesis
    by (auto simp: abs_cache_def push_item_eq value_of_def key_of_def)
qed

section \<open>Get and Set implement their specifications\<close>

lemma Get_unfold:
  "Cache_Get now k c =
     (if cache_cap c \<le> 0 then (None, c)
      else case items c k of
        None \<Rightarrow> (None, c)
      | Some el \<Rightarrow>
          (if expired now (item_entry (value_of c el))
           then (None, delete_item k (list_Remove el c))
           else (Some (item_entry (value_of c el)), list_MoveToFront el c)))"
  by (simp add: Cache_Get_def Let_def split: option.splits)

lemma Get_cases:
  assumes inv: "cache_inv c"
  obtains
    (miss) "map_of (abs_cache c) k = None" "Cache_Get now k c = (None, c)"
  | (stale) el where "el \<in> set (lru_list c)" "key_of c el = k"
      "map_of (abs_cache c) k = Some (item_entry (value_of c el))"
      "expired now (item_entry (value_of c el))"
      "Cache_Get now k c = (None, drop_element el c)"
  | (hit) el where "el \<in> set (lru_list c)" "key_of c el = k"
      "map_of (abs_cache c) k = Some (item_entry (value_of c el))"
      "\<not> expired now (item_entry (value_of c el))"
      "Cache_Get now k c = (Some (item_entry (value_of c el)), list_MoveToFront el c)"
proof (cases "cache_cap c \<le> 0 \<or> items c k = None")
  case True
  then show ?thesis
    using miss abs_disabled [OF inv] inv_lookup [OF inv, of k] by (auto simp: Get_unfold)
next
  case False
  then obtain el where el: "items c k = Some el" by auto
  with inv_items [OF inv] have mem: "el \<in> set (lru_list c)" "key_of c el = k" by auto
  from False el show ?thesis
    using stale [OF mem] hit [OF mem] mem
    by (auto simp: inv_lookup [OF inv] Get_unfold drop_element_def split: if_splits)
qed

lemma Get_refines:
  assumes inv: "cache_inv c"
  shows "lru_get now k (abs_cache c)
           = (fst (Cache_Get now k c), abs_cache (snd (Cache_Get now k c)))"
  using inv
proof (cases rule: Get_cases [of c k now])
  case miss
  then show ?thesis by (simp add: lru_get_def)
next
  case (stale el)
  then show ?thesis using drop_abs [OF inv stale(1)] by (simp add: lru_get_def)
next
  case (hit el)
  then show ?thesis using front_abs [OF inv hit(1)] by (simp add: lru_get_def)
qed

lemma Get_inv:
  assumes inv: "cache_inv c"
  shows "cache_inv (snd (Cache_Get now k c))"
  using inv
  by (cases rule: Get_cases [of c k now]) (simp_all add: inv drop_inv [OF inv] front_inv [OF inv])

lemma Get_cap: "cache_cap (snd (Cache_Get now k c)) = cache_cap c"
  by (simp add: Get_unfold cache_simps split: option.splits)

lemma Set_cap: "cache_cap (Cache_Set k e c) = cache_cap c"
  by (simp add: Cache_Set_def cache_simps Let_def split: option.splits prod.splits)

lemma Back_abs:
  assumes inv: "cache_inv c" and ne: "lru_list c \<noteq> []"
  shows "del_key (key_of c (last (lru_list c))) (abs_cache c) = butlast (abs_cache c)"
proof -
  let ?el = "last (lru_list c)"
  have d: "distinct (lru_list c)" using inv by (simp add: cache_inv_def)
  have "del_key (key_of c ?el) (abs_cache c)
          = map (\<lambda>el. (key_of c el, item_entry (value_of c el))) (remove1 ?el (lru_list c))"
    using abs_remove1 [OF inv, of ?el] ne by simp
  also have "\<dots> = butlast (abs_cache c)"
    by (simp add: remove1_last [OF d ne] abs_cache_def map_butlast)
  finally show ?thesis .
qed

lemma Set_cases:
  assumes inv: "cache_inv c"
  obtains
    (disabled) "cache_cap c \<le> 0" "Cache_Set k e c = c"
  | (update) el where "0 < cache_cap c" "el \<in> set (lru_list c)" "key_of c el = k"
      "Cache_Set k e c = write_entry el e (list_MoveToFront el c)"
  | (insert) "0 < cache_cap c" "items c k = None" "int (length (lru_list c)) < cache_cap c"
      "Cache_Set k e c = push_item k e c"
  | (evict) "0 < cache_cap c" "items c k = None" "lru_list c \<noteq> []"
      "cache_cap c \<le> int (length (lru_list c))"
      "Cache_Set k e c = push_item k e (drop_element (last (lru_list c)) c)"
proof (cases "cache_cap c \<le> 0")
  case True
  then show ?thesis using disabled by (simp add: Cache_Set_def)
next
  case pos: False
  show ?thesis
  proof (cases "items c k")
    case (Some el)
    then have "el \<in> set (lru_list c)" and "key_of c el = k"
      using inv_items [OF inv] by auto
    moreover from pos Some have "Cache_Set k e c = write_entry el e (list_MoveToFront el c)"
      by (simp add: Cache_Set_def write_entry_def Let_def)
    ultimately show ?thesis using update pos by simp
  next
    case None
    show ?thesis
    proof (cases "cache_cap c \<le> int (length (lru_list c))")
      case True
      with pos have "lru_list c \<noteq> []" by auto
      with pos None True show ?thesis
        using evict
        by (simp add: Cache_Set_def push_item_def drop_element_def list_Back_def key_of_def Let_def)
    next
      case False
      with pos None show ?thesis
        using insert by (simp add: Cache_Set_def push_item_def Let_def)
    qed
  qed
qed

lemma Set_inv_abs:
  assumes inv: "cache_inv c"
  shows "cache_inv (Cache_Set k e c)
       \<and> abs_cache (Cache_Set k e c) = lru_set (cache_cap c) k e (abs_cache c)"
  using inv
proof (cases rule: Set_cases [of c k e])
  case disabled
  with inv show ?thesis by (simp add: lru_set_def)
next
  case (update el)
  have i: "cache_inv (list_MoveToFront el c)" by (rule front_inv [OF inv update(2)])
  have l: "lru_list (list_MoveToFront el c) = el # remove1 el (lru_list c)"
    and k: "key_of (list_MoveToFront el c) el = k"
    using update(3) by (simp_all add: cache_simps key_of_def)
  have "k \<in> fst ` set (abs_cache c)"
    using update(2,3) by (auto simp: abs_cache_def image_iff)
  moreover have "el \<in> set (lru_list (list_MoveToFront el c))" by (simp add: l)
  ultimately show ?thesis
    using update write_inv [OF i, of el e] write_abs_head [OF i l, of e] k
      front_abs [OF inv update(2)]
    by (simp add: lru_set_def)
next
  case insert
  have "k \<notin> fst ` set (abs_cache c)"
    using insert(2) by (simp add: abs_mem [OF inv])
  with insert show ?thesis
    using push_inv [OF inv insert(2,3)] push_abs [OF inv]
    by (simp add: lru_set_def abs_length)
next
  case evict
  let ?c = "drop_element (last (lru_list c)) c"
  have mem: "last (lru_list c) \<in> set (lru_list c)" using evict(3) by simp
  have i: "cache_inv ?c" by (rule drop_inv [OF inv mem])
  have a: "abs_cache ?c = butlast (abs_cache c)"
    using drop_abs [OF inv mem] Back_abs [OF inv evict(3)] by simp
  have "items ?c k = None" using evict(2) by (simp add: drop_element_def cache_simps)
  moreover have "int (length (lru_list ?c)) < cache_cap ?c"
    using inv evict mem
    by (simp add: drop_element_def cache_simps length_remove1 cache_inv_def)
  moreover have "k \<notin> fst ` set (abs_cache c)"
    using evict(2) by (simp add: abs_mem [OF inv])
  ultimately show ?thesis
    using evict push_inv [OF i] push_abs [OF i] a
    by (simp add: lru_set_def abs_length)
qed

lemmas Set_inv = Set_inv_abs [THEN conjunct1]
lemmas Set_refines = Set_inv_abs [THEN conjunct2]


section \<open>Runs of the cache\<close>

datatype cache_op = OpGet time string | OpSet string cache_entry

fun op_key :: "cache_op \<Rightarrow> string" where
  "op_key (OpGet _ k) = k"
| "op_key (OpSet k _) = k"

fun cache_step :: "cache_op \<Rightarrow> cache \<Rightarrow> cache" where
  "cache_step (OpGet now k) c = snd (Cache_Get now k c)"
| "cache_step (OpSet k e) c = Cache_Set k e c"

fun cache_run :: "cache_op list \<Rightarrow> cache \<Rightarrow> cache" where
  "cache_run [] c = c"
| "cache_run (x # xs) c = cache_run xs (cache_step x c)"

lemma cache_run_append: "cache_run (xs @ ys) c = cache_run ys (cache_run xs c)"
  by (induction xs arbitrary: c) simp_all

fun lru_step :: "int \<Rightarrow> cache_op \<Rightarrow> lru \<Rightarrow> lru" where
  "lru_step n (OpGet now k) l = snd (lru_get now k l)"
| "lru_step n (OpSet k e) l = lru_set n k e l"

fun lru_run :: "int \<Rightarrow> cache_op list \<Rightarrow> lru \<Rightarrow> lru" where
  "lru_run n [] l = l"
| "lru_run n (x # xs) l = lru_run n xs (lru_step n x l)"

lemma step_refines:
  assumes "cache_inv c"
  shows "cache_inv (cache_step x c) \<and> cache_cap (cache_step x c) = cache_cap c
       \<and> abs_cache (cache_step x c) = lru_step (cache_cap c) x (abs_cache c)"
  using assms
  by (cases x) (simp_all add: Get_inv Get_cap Get_refines Set_cap Set_inv Set_refines)

lemma run_refines:
  assumes "cache_inv c"
  shows "cache_inv (cache_run xs c) \<and> cache_cap (cache_run xs c) = cache_cap c
       \<and> abs_cache (cache_run xs c) = lru_run (cache_cap c) xs (abs_cache c)"
  using assms
proof (induction xs arbitrary: c)
  case (Cons x xs)
  then show ?case using step_refines [OF Cons.prems, of x] by simp
qed simp

section \<open>The recency order\<close>

lemma take_filter_take:
  "distinct xs \<Longrightarrow>
     take m (filter (\<lambda>x. x \<noteq> k) (take (Suc m) xs)) = take m (filter (\<lambda>x. x \<noteq> k) xs)"
proof (induction xs arbitrary: m)
  case (Cons x xs)
  show ?case
  proof (cases "x = k")
    case True
    with Cons.prems have "filter (\<lambda>y. y \<noteq> k) (take m xs) = take m xs"
      and "filter (\<lambda>y. y \<noteq> k) xs = xs"
      by (auto simp: filter_id_conv dest: in_set_takeD)
    with True show ?thesis by simp
  next
    case False
    with Cons show ?thesis by (cases m) simp_all
  qed
qed simp

text \<open>One insertion: the keys become the first \<open>n\<close> of "the new key, then the others".\<close>

lemma keys_lru_set:
  assumes "0 < n" and "distinct (keys_of l)" and "int (length l) \<le> n"
  shows "keys_of (lru_set n k e l) = take (nat n) (k # filter (\<lambda>x. x \<noteq> k) (keys_of l))"
proof -
  obtain m where m: "nat n = Suc m" using assms(1) by (cases "nat n") auto
  have f: "keys_of (del_key k l) = filter (\<lambda>x. x \<noteq> k) (keys_of l)"
    by (simp add: del_key_def filter_map o_def)
  show ?thesis
  proof (cases "k \<in> fst ` set l")
    case True
    have "length (del_key k l) \<le> m"
      using length_del_key [OF assms(2) True] assms(3) m by simp
    then have "length (filter (\<lambda>x. x \<noteq> k) (keys_of l)) \<le> m"
      by (metis f length_map)
    with True assms(1) show ?thesis by (simp add: lru_set_def m f)
  next
    case False
    then have nf: "filter (\<lambda>x. x \<noteq> k) (keys_of l) = keys_of l"
      by (auto simp: filter_id_conv)
    have "length l = nat n" if "n \<le> int (length l)"
      using that assms(3) by simp
    with False assms(1,3) m show ?thesis
      by (auto simp: lru_set_def nf butlast_conv_take take_map)
  qed
qed

fun sets_of :: "(string \<times> cache_entry) list \<Rightarrow> cache_op list" where
  "sets_of [] = []"
| "sets_of ((k, e) # ps) = OpSet k e # sets_of ps"

text \<open>The distinct keys of a sequence of insertions, most recently inserted first.\<close>

definition recency :: "string list \<Rightarrow> string list" where
  "recency ks = rev (remdups ks)"

lemma recency_snoc: "recency (ks @ [k]) = k # filter (\<lambda>x. x \<noteq> k) (recency ks)"
proof -
  have "remdups (ks @ [k]) = filter (\<lambda>x. x \<noteq> k) (remdups ks) @ [k]"
    by (induction ks) auto
  then show ?thesis by (simp add: recency_def rev_filter)
qed

lemma lru_run_append: "lru_run n (xs @ ys) l = lru_run n ys (lru_run n xs l)"
  by (induction xs arbitrary: l) auto

lemma sets_of_append: "sets_of (ps @ qs) = sets_of ps @ sets_of qs"
  by (induction ps rule: sets_of.induct) auto

lemma lru_sets_keys:
  assumes "0 < n"
  shows "keys_of (lru_run n (sets_of ps) []) = take (nat n) (recency (keys_of ps))"
proof (induction ps rule: rev_induct)
  case Nil
  then show ?case by (simp add: recency_def)
next
  case (snoc p ps)
  obtain k e where p: "p = (k, e)" by (cases p)
  let ?l = "lru_run n (sets_of ps) []"
  let ?R = "recency (keys_of ps)"
  have d: "distinct ?R" by (simp add: recency_def)
  have "distinct (keys_of ?l)" using d by (simp add: snoc.IH)
  moreover have "length (keys_of ?l) \<le> nat n" by (simp add: snoc.IH)
  then have "int (length ?l) \<le> n" using assms by simp
  ultimately have "keys_of (lru_set n k e ?l)
      = take (nat n) (k # filter (\<lambda>x. x \<noteq> k) (take (nat n) ?R))"
    using keys_lru_set [OF assms, of ?l k e] by (simp add: snoc.IH)
  also have "\<dots> = take (nat n) (k # filter (\<lambda>x. x \<noteq> k) ?R)"
    using take_filter_take [OF d] by (cases "nat n") auto
  finally show ?case
    by (simp add: p sets_of_append lru_run_append recency_snoc)
qed

section \<open>A recently stored entry survives\<close>

text \<open>Position of a key in the recency order: at most as many entries are in front of it as
  distinct other keys have been touched since.\<close>

definition holds_at :: "string \<Rightarrow> cache_entry \<Rightarrow> string set \<Rightarrow> lru \<Rightarrow> bool" where
  "holds_at k e S l \<longleftrightarrow>
     distinct (keys_of l) \<and>
     (\<exists>pre suf. l = pre @ (k, e) # suf \<and> fst ` set pre \<subseteq> S - {k})"

lemma holds_at_lookup: "holds_at k e S l \<Longrightarrow> map_of l k = Some e"
  by (auto simp: holds_at_def)

lemma holds_atI:
  "distinct (keys_of l) \<Longrightarrow> l = pre @ (k, e) # suf \<Longrightarrow> fst ` set pre \<subseteq> S - {k} \<Longrightarrow> holds_at k e S l"
  by (auto simp: holds_at_def)

lemma holds_at_mono: "holds_at k e S l \<Longrightarrow> S \<subseteq> T \<Longrightarrow> holds_at k e T l"
  by (fastforce simp: holds_at_def)

lemma holds_at_pre:
  assumes "distinct (keys_of (pre @ (k, e) # suf))" and "fst ` set pre \<subseteq> S - {k}" and "finite S"
  shows "length pre \<le> card (S - {k})"
proof -
  have "length pre = card (fst ` set pre)"
    using assms(1) distinct_card [of "keys_of pre"] by simp
  also have "\<dots> \<le> card (S - {k})"
    using assms(2,3) by (intro card_mono) auto
  finally show ?thesis .
qed

lemma del_key_append: "del_key k (xs @ ys) = del_key k xs @ del_key k ys"
  by (simp add: del_key_def)

lemma holds_at_get:
  assumes h: "holds_at k e S l" and "k' = k \<Longrightarrow> \<not> expired now e"
  shows "holds_at k e (insert k' S) (snd (lru_get now k' l))"
proof -
  obtain pre suf where l: "l = pre @ (k, e) # suf" and pre: "fst ` set pre \<subseteq> S - {k}"
    and d: "distinct (keys_of l)" using h by (auto simp: holds_at_def)
  have k: "k \<notin> fst ` set pre" "k \<notin> fst ` set suf" using d l by auto
  show ?thesis
  proof (cases "k' = k")
    case True
    have "del_key k l = pre @ suf"
      using k by (simp add: l del_key_append del_key_absent)
        (auto simp: del_key_def filter_id_conv image_iff)
    then have "snd (lru_get now k' l) = (k, e) # pre @ suf"
      using True assms(2) holds_at_lookup [OF h] by (simp add: lru_get_def)
    with d l show ?thesis
      by (intro holds_atI [where pre = "[]" and suf = "pre @ suf"]) auto
  next
    case False
    have dk: "del_key k' l = del_key k' pre @ (k, e) # del_key k' suf"
      using False by (simp add: l del_key_append) (simp add: del_key_def)
    have sub: "fst ` set (del_key k' pre) \<subseteq> insert k' S - {k}"
      using pre by (auto simp: keys_del_key)
    have dd: "distinct (keys_of (del_key k' l))" by (rule distinct_del_key [OF d])
    show ?thesis
    proof (cases "map_of l k'")
      case None
      then show ?thesis using h holds_at_mono [OF h] by (auto simp: lru_get_def)
    next
      case (Some x)
      then have "snd (lru_get now k' l) = del_key k' l
               \<or> snd (lru_get now k' l) = (k', x) # del_key k' l"
        by (simp add: lru_get_def)
      then show ?thesis
      proof
        assume "snd (lru_get now k' l) = del_key k' l"
        with dd sub dk show ?thesis by (auto simp: holds_at_def)
      next
        assume eq: "snd (lru_get now k' l) = (k', x) # del_key k' l"
        have "distinct (keys_of ((k', x) # del_key k' l))"
          using dd by (auto simp: keys_del_key)
        moreover have "(k', x) # del_key k' l = ((k', x) # del_key k' pre) @ (k, e) # del_key k' suf"
          using dk by simp
        moreover have "fst ` set ((k', x) # del_key k' pre) \<subseteq> insert k' S - {k}"
          using sub False by auto
        ultimately show ?thesis unfolding eq holds_at_def by blast
      qed
    qed
  qed
qed

lemma holds_at_set:
  assumes h: "holds_at k e S l" and ne: "k' \<noteq> k" and fin: "finite S"
    and few: "int (card (insert k' S - {k})) < n"
  shows "holds_at k e (insert k' S) (lru_set n k' e' l)"
proof -
  obtain pre suf where l: "l = pre @ (k, e) # suf" and pre: "fst ` set pre \<subseteq> S - {k}"
    and d: "distinct (keys_of l)" using h by (auto simp: holds_at_def)
  have n: "0 < n" using few by simp
  show ?thesis
  proof (cases "k' \<in> fst ` set l")
    case True
    have dk: "del_key k' l = del_key k' pre @ (k, e) # del_key k' suf"
      using ne by (simp add: l del_key_append) (simp add: del_key_def)
    have eq: "lru_set n k' e' l = (k', e') # del_key k' l"
      using True n by (simp add: lru_set_def)
    have "fst ` set ((k', e') # del_key k' pre) \<subseteq> insert k' S - {k}"
      using pre ne by (auto simp: keys_del_key)
    moreover have "distinct (keys_of ((k', e') # del_key k' l))"
      using distinct_del_key [OF d, of k'] by (auto simp: keys_del_key)
    ultimately show ?thesis
      unfolding eq using dk by (intro holds_atI [where pre = "(k', e') # del_key k' pre"]) auto
  next
    case new: False
    have sub: "fst ` set ((k', e') # pre) \<subseteq> insert k' S - {k}"
      using pre ne by auto
    show ?thesis
    proof (cases "n \<le> int (length l)")
      case False
      then have eq: "lru_set n k' e' l = (k', e') # l" using new n by (simp add: lru_set_def)
      show ?thesis
        unfolding eq using d new sub l by (intro holds_atI [where pre = "(k', e') # pre"]) auto
    next
      case True
      have "suf \<noteq> []"
      proof
        assume "suf = []"
        with True have "n \<le> int (Suc (length pre))" by (simp add: l)
        also have "Suc (length pre) = card (fst ` set ((k', e') # pre))"
          using d new by (simp add: l card_image distinct_map distinct_card image_Un)
        also have "\<dots> \<le> card (insert k' S - {k})"
          using sub fin by (intro card_mono) auto
        finally show False using few by simp
      qed
      then have b: "butlast l = pre @ (k, e) # butlast suf" by (simp add: l butlast_append)
      have eq: "lru_set n k' e' l = (k', e') # butlast l"
        using True new n by (simp add: lru_set_def)
      have "distinct (keys_of ((k', e') # butlast l))"
        using d new by (auto simp: map_butlast distinct_butlast dest: in_set_butlastD)
      then show ?thesis
        unfolding eq using sub b by (intro holds_atI [where pre = "(k', e') # pre"]) auto
    qed
  qed
qed

fun spares :: "string \<Rightarrow> cache_entry \<Rightarrow> cache_op \<Rightarrow> bool" where
  "spares k e (OpGet now k') \<longleftrightarrow> (k' = k \<longrightarrow> \<not> expired now e)"
| "spares k e (OpSet k' e') \<longleftrightarrow> k' \<noteq> k"

lemma holds_at_run:
  assumes "holds_at k e S l" and "\<forall>x \<in> set xs. spares k e x" and "finite S"
    and "int (card (S \<union> op_key ` set xs - {k})) < n"
  shows "holds_at k e (S \<union> op_key ` set xs) (lru_run n xs l)"
  using assms
proof (induction xs arbitrary: S l)
  case (Cons x xs)
  let ?S = "insert (op_key x) S"
  have "card (?S - {k}) \<le> card (S \<union> op_key ` set (x # xs) - {k})"
    using Cons.prems(3) by (intro card_mono) auto
  with Cons.prems(4) have few: "int (card (?S - {k})) < n" by simp
  have "holds_at k e ?S (lru_step n x l)"
  proof (cases x)
    case (OpGet now k')
    with Cons.prems show ?thesis using holds_at_get [of k e S l k' now] by simp
  next
    case (OpSet k' e')
    with Cons.prems few show ?thesis using holds_at_set [of k e S l k' n e'] by simp
  qed
  then have "holds_at k e (?S \<union> op_key ` set xs) (lru_run n xs (lru_step n x l))"
    using Cons.prems by (intro Cons.IH) auto
  then show ?case by simp
qed simp

lemma lru_set_holds_at:
  assumes "0 < n" and "distinct (keys_of l)"
  shows "holds_at k e {} (lru_set n k e l)"
proof -
  have "distinct (keys_of (lru_set n k e l))"
    using assms distinct_del_key [of l k]
    by (auto simp: lru_set_def keys_del_key map_butlast distinct_butlast dest: in_set_butlastD)
  then show ?thesis
    using assms(1) by (auto simp: lru_set_def holds_at_def)
qed

text \<open>The survival lemma, on the cache itself.\<close>

lemma Cache_survives:
  assumes inv: "cache_inv c" and "\<forall>x \<in> set xs. spares k e x"
    and few: "int (card (op_key ` set xs - {k})) < cache_cap c"
  shows "map_of (abs_cache (cache_run xs (Cache_Set k e c))) k = Some e"
proof -
  let ?c = "Cache_Set k e c"
  have pos: "0 < cache_cap c" using few by simp
  have "holds_at k e {} (abs_cache ?c)"
    using lru_set_holds_at [OF pos abs_distinct [OF inv]] by (simp add: Set_refines [OF inv])
  then have "holds_at k e ({} \<union> op_key ` set xs) (lru_run (cache_cap c) xs (abs_cache ?c))"
    using assms by (intro holds_at_run) auto
  then show ?thesis
    using run_refines [OF Set_inv [OF inv], of xs k e] by (auto simp: Set_cap dest: holds_at_lookup)
qed

section \<open>The interface that the handlers rely on\<close>

text \<open>
  What the HTTP handlers use of a cache: \<open>get\<close> returns what is stored under the key,
  unless it has expired, and otherwise leaves the contents alone; \<open>put\<close> stores the entry
  and may lose other keys (eviction), but never changes or invents one.
\<close>

locale response_cache =
  fixes get :: "time \<Rightarrow> string \<Rightarrow> 'c \<Rightarrow> cache_entry option \<times> 'c"
    and put :: "string \<Rightarrow> cache_entry \<Rightarrow> 'c \<Rightarrow> 'c"
    and inv :: "'c \<Rightarrow> bool"
    and lookup :: "'c \<Rightarrow> string \<Rightarrow> cache_entry option"
    and enabled :: "'c \<Rightarrow> bool"
  assumes get_inv: "inv c \<Longrightarrow> inv (snd (get now k c))"
    and put_inv: "inv c \<Longrightarrow> inv (put k e c)"
    and get_result: "inv c \<Longrightarrow>
      fst (get now k c) = (case lookup c k of None \<Rightarrow> None
                           | Some e \<Rightarrow> if expired now e then None else Some e)"
    and get_frame: "inv c \<Longrightarrow> lookup (snd (get now k c)) =
      (case lookup c k of None \<Rightarrow> lookup c
       | Some e \<Rightarrow> if expired now e then (lookup c)(k := None) else lookup c)"
    and put_same: "inv c \<Longrightarrow> enabled c \<Longrightarrow> lookup (put k e c) k = Some e"
    and put_other: "inv c \<Longrightarrow> k' \<noteq> k \<Longrightarrow> lookup (put k e c) k' \<in> {None, lookup c k'}"
    and put_disabled: "inv c \<Longrightarrow> \<not> enabled c \<Longrightarrow> put k e c = c"
    and disabled_empty: "inv c \<Longrightarrow> \<not> enabled c \<Longrightarrow> lookup c k = None"
    and get_enabled: "enabled (snd (get now k c)) = enabled c"
    and put_enabled: "enabled (put k e c) = enabled c"
begin

lemma get_fresh: "inv c \<Longrightarrow> fst (get now k c) = Some e \<Longrightarrow> \<not> expired now e"
  by (auto simp: get_result split: option.splits if_splits)

lemma get_stored: "inv c \<Longrightarrow> fst (get now k c) = Some e \<Longrightarrow> lookup c k = Some e"
  by (auto simp: get_result split: option.splits if_splits)

lemma get_after_put:
  "inv c \<Longrightarrow> enabled c \<Longrightarrow> \<not> expired now e \<Longrightarrow> fst (get now k (put k e c)) = Some e"
  by (simp add: get_result put_inv put_same)

lemma get_miss_after_stale:
  "inv c \<Longrightarrow> lookup c k = Some e \<Longrightarrow> expired now e \<Longrightarrow>
     fst (get now k c) = None \<and> lookup (snd (get now k c)) k = None"
  by (simp add: get_result get_frame)

lemma get_sub: "inv c \<Longrightarrow> lookup (snd (get now k c)) k' \<in> {None, lookup c k'}"
  by (auto simp: get_frame split: option.splits)

lemma put_cases:
  "inv c \<Longrightarrow> lookup (put k e c) k' = Some x \<Longrightarrow> (k' = k \<and> x = e) \<or> lookup c k' = Some x"
  using put_other [of c k' k e] put_same [of c k e] put_disabled [of c k e]
  by (cases "enabled c"; cases "k' = k") auto

end

lemma Set_disabled: "\<not> 0 < cache_cap c \<Longrightarrow> Cache_Set k e c = c"
  by (simp add: Cache_Set_def)

lemma lru_set_other:
  assumes "distinct (keys_of l)" and "k' \<noteq> k"
  shows "map_of (lru_set n k e l) k' \<in> {None, map_of l k'}"
proof -
  have "map_of (butlast l) k' \<in> {None, map_of l k'}"
  proof (cases "l = []")
    case False
    then have "l = butlast l @ [last l]" by simp
    then have "map_of l = map_of [last l] ++ map_of (butlast l)" by (metis map_of_append)
    then show ?thesis by (cases "map_of (butlast l) k'") auto
  qed simp
  then show ?thesis using assms(2) by (auto simp: lru_set_def map_of_del_key)
qed

interpretation lru: response_cache Cache_Get Cache_Set cache_inv
  "\<lambda>c. map_of (abs_cache c)" "\<lambda>c. 0 < cache_cap c"
proof unfold_locales
  fix c now k
  assume inv: "cache_inv c"
  show "fst (Cache_Get now k c) = (case map_of (abs_cache c) k of None \<Rightarrow> None
          | Some e \<Rightarrow> if expired now e then None else Some e)"
    using Get_refines [OF inv, of now k] by (auto simp: lru_get_def split: option.splits if_splits)
  have a: "abs_cache (snd (Cache_Get now k c)) = snd (lru_get now k (abs_cache c))"
    by (simp add: Get_refines [OF inv])
  show "map_of (abs_cache (snd (Cache_Get now k c))) =
      (case map_of (abs_cache c) k of None \<Rightarrow> map_of (abs_cache c)
       | Some e \<Rightarrow> if expired now e then (map_of (abs_cache c))(k := None) else map_of (abs_cache c))"
    by (auto simp: a lru_get_def map_of_del_key fun_eq_iff split: option.splits)
qed (use lru_set_other [OF abs_distinct] in
      \<open>auto simp: Get_inv Set_inv Set_refines Get_cap Set_cap Set_disabled abs_disabled lru_set_def
        simp del: insert_iff split: if_splits\<close>)

section \<open>Properties of the cache\<close>

text \<open>
  The mutex makes every call of \<open>Get\<close> and \<open>Set\<close> atomic, so that a concurrent history is
  a sequence of operations.
\<close>

text \<open>C6. Whatever sequence of calls a new cache has seen, its list, its map and its elements are
  consistent with each other, it holds at most its capacity, and its contents and recency order
  are those of the abstract LRU list.\<close>

theorem cache_implements_lru:
  "cache_inv (cache_run xs (NewCache n)) \<and> cache_cap (cache_run xs (NewCache n)) = n
   \<and> abs_cache (cache_run xs (NewCache n)) = lru_run n xs []"
  using run_refines [OF NewCache_inv, of xs n] by (simp add: NewCache_abs)

text \<open>After any calls, \<open>Get\<close> returns what the abstract list holds under the key unless
  that entry has expired; an expired entry is removed, a live one moves to the front.\<close>

theorem Get_returns_live_entry:
  "let c = cache_run xs (NewCache n); l = lru_run n xs [] in
     (fst (Cache_Get now k c), abs_cache (snd (Cache_Get now k c))) =
       (case map_of l k of
          None \<Rightarrow> (None, l)
        | Some e \<Rightarrow> if expired now e then (None, del_key k l) else (Some e, (k, e) # del_key k l))"
  using run_refines [OF NewCache_inv, of xs n] Get_refines [of "cache_run xs (NewCache n)" now k]
  by (simp add: NewCache_abs Let_def lru_get_def)

text \<open>C36. Eviction is least recently used: after any insertions into a new cache of positive
  capacity, the keys held are the most recently inserted distinct ones, as many as fit, in that
  order.\<close>

theorem eviction_keeps_most_recent:
  assumes "0 < n"
  shows "keys_of (abs_cache (cache_run (sets_of ps) (NewCache n)))
           = take (nat n) (recency (keys_of ps))"
  using run_refines [OF NewCache_inv, of "sets_of ps" n] lru_sets_keys [OF assms, of ps]
  by (simp add: NewCache_abs)

definition sample_entry :: "string \<Rightarrow> cache_entry" where
  "sample_entry b = \<lparr>statusCode = 200, header = [], body = b, expiresAt = zero_time\<rparr>"

theorem eviction_keeps_most_recent_witness:
  "let ps = [(''a'', sample_entry ''1''), (''b'', sample_entry ''2''), (''a'', sample_entry ''3''),
             (''c'', sample_entry ''4'')]
   in keys_of (abs_cache (cache_run (sets_of ps) (NewCache 2))) = [''c'', ''a'']"
  using eviction_keeps_most_recent [of 2 "[(''a'', sample_entry ''1''), (''b'', sample_entry ''2''),
      (''a'', sample_entry ''3''), (''c'', sample_entry ''4'')]"]
  by (simp add: recency_def)

text \<open>A stored entry is still there, unchanged, after any further calls that do not
  overwrite it or find it expired, as long as these touch fewer distinct other keys than the
  capacity: the cache never loses an entry before it has to.\<close>

theorem stored_entry_kept:
  assumes "\<forall>x \<in> set xs. spares k e x"
    and "int (card (op_key ` set xs - {k})) < n"
  shows "map_of (abs_cache (cache_run xs (Cache_Set k e (cache_run ys (NewCache n))))) k = Some e"
  using Cache_survives [of "cache_run ys (NewCache n)" xs k e] run_refines [OF NewCache_inv, of ys n] assms
  by simp

theorem stored_entry_kept_witness:
  "map_of (abs_cache (cache_run [OpSet ''b'' (sample_entry ''2''), OpSet ''b'' (sample_entry ''3'')]
     (Cache_Set ''a'' (sample_entry ''1'') (cache_run [OpSet ''c'' (sample_entry ''0'')] (NewCache 2)))))
     ''a'' = Some (sample_entry ''1'')"
  by (rule stored_entry_kept) simp_all

text \<open>A capacity of zero or less disables the cache: after any calls it holds nothing and
  every \<open>Get\<close> misses.\<close>

theorem disabled_cache_misses:
  assumes "n \<le> 0"
  shows "abs_cache (cache_run xs (NewCache n)) = [] \<and> fst (Cache_Get now k (cache_run xs (NewCache n))) = None"
proof -
  have c: "cache_inv (cache_run xs (NewCache n))" "cache_cap (cache_run xs (NewCache n)) \<le> 0"
    using run_refines [OF NewCache_inv, of xs n] assms by simp_all
  then show ?thesis by (simp add: abs_disabled Get_unfold)
qed

theorem disabled_cache_misses_witness:
  "abs_cache (cache_run [OpSet ''a'' (sample_entry ''1'')] (NewCache 0)) = []
   \<and> fst (Cache_Get zero_time ''a'' (cache_run [OpSet ''a'' (sample_entry ''1'')] (NewCache 0))) = None"
  by (rule disabled_cache_misses) simp

end
