(* ===== verification/GoUtf8.thy ===== *)
theory GoUtf8
  imports GoStrings
begin

text \<open>
  Runes: Go's decoding of UTF-8 (package \<open>unicode/utf8\<close>, the conversions \<open>[]rune(s)\<close> and
  \<open>string(runes)\<close>).  An invalid byte decodes to U+FFFD and has width 1.
\<close>

type_synonym rune = nat

definition rune_error :: rune where
  "rune_error = 65533"

definition is_cont :: "nat \<Rightarrow> bool" where
  "is_cont b \<longleftrightarrow> 128 \<le> b \<and> b \<le> 191"

definition second_ok :: "nat \<Rightarrow> nat \<Rightarrow> bool" where
  "second_ok b0 b1 \<longleftrightarrow>
     (if b0 = 224 then 160 \<le> b1 \<and> b1 \<le> 191
      else if b0 = 237 then 128 \<le> b1 \<and> b1 \<le> 159
      else if b0 = 240 then 144 \<le> b1 \<and> b1 \<le> 191
      else if b0 = 244 then 128 \<le> b1 \<and> b1 \<le> 143
      else is_cont b1)"

text \<open>The first rune of a string and its width in bytes.\<close>

definition decode_rune :: "string \<Rightarrow> rune \<times> nat" where
  "decode_rune s =
     (case map byte_of (take 4 s) of
        [] \<Rightarrow> (rune_error, 0)
      | b0 # bs \<Rightarrow>
          if b0 < 128 then (b0, 1)
          else if 194 \<le> b0 \<and> b0 \<le> 223 then
            (case bs of
               b1 # _ \<Rightarrow> if is_cont b1 then ((b0 - 192) * 64 + (b1 - 128), 2) else (rune_error, 1)
             | _ \<Rightarrow> (rune_error, 1))
          else if 224 \<le> b0 \<and> b0 \<le> 239 then
            (case bs of
               b1 # b2 # _ \<Rightarrow>
                 if second_ok b0 b1 \<and> is_cont b2
                 then ((b0 - 224) * 4096 + (b1 - 128) * 64 + (b2 - 128), 3) else (rune_error, 1)
             | _ \<Rightarrow> (rune_error, 1))
          else if 240 \<le> b0 \<and> b0 \<le> 244 then
            (case bs of
               b1 # b2 # b3 # _ \<Rightarrow>
                 if second_ok b0 b1 \<and> is_cont b2 \<and> is_cont b3
                 then ((b0 - 240) * 262144 + (b1 - 128) * 4096 + (b2 - 128) * 64 + (b3 - 128), 4)
                 else (rune_error, 1)
             | _ \<Rightarrow> (rune_error, 1))
          else (rune_error, 1))"

definition is_scalar :: "rune \<Rightarrow> bool" where
  "is_scalar r \<longleftrightarrow> r < 55296 \<or> (57343 < r \<and> r < 1114112)"

definition encode_scalar :: "rune \<Rightarrow> string" where
  "encode_scalar r =
     map char_of_byte
       (if r < 128 then [r]
        else if r < 2048 then [192 + r div 64, 128 + r mod 64]
        else if r < 65536 then [224 + r div 4096, 128 + r div 64 mod 64, 128 + r mod 64]
        else [240 + r div 262144, 128 + r div 4096 mod 64, 128 + r div 64 mod 64, 128 + r mod 64])"

definition encode_rune :: "rune \<Rightarrow> string" where
  "encode_rune r = encode_scalar (if is_scalar r then r else rune_error)"

lemma decode_width: "s \<noteq> [] \<Longrightarrow> 1 \<le> snd (decode_rune s)"
  by (auto simp: decode_rune_def split: list.splits)

lemma decode_width_le: "snd (decode_rune s) \<le> 4"
  by (auto simp: decode_rune_def split: list.splits)

function to_runes :: "string \<Rightarrow> rune list" where
  "to_runes s =
     (if s = [] then [] else fst (decode_rune s) # to_runes (drop (snd (decode_rune s)) s))"
  by pat_completeness auto
termination
proof (relation "measure length")
  fix s :: string
  assume "s \<noteq> []"
  then show "(drop (snd (decode_rune s)) s, s) \<in> measure length"
    using decode_width [of s] by (cases s) auto
qed simp

declare to_runes.simps [simp del]

definition of_runes :: "rune list \<Rightarrow> string" where
  "of_runes rs = concat (map encode_rune rs)"

lemma of_runes_simps [simp]:
  "of_runes [] = []" "of_runes (r # rs) = encode_rune r @ of_runes rs"
  by (simp_all add: of_runes_def)

lemma to_runes_Nil [simp]: "to_runes [] = []"
  by (simp add: to_runes.simps)

text \<open>Decoding what was encoded.  The digits of a rune in base 64 are named first, so that the
  range conditions are linear.\<close>

lemma base64_3: "r div 4096 * 4096 + r div 64 mod 64 * 64 + r mod 64 = (r::nat)"
proof -
  have "r div 4096 = r div 64 div 64" by (simp add: div_mult2_eq [symmetric])
  then have "r div 4096 * 64 + r div 64 mod 64 = r div 64" by simp
  then have "(r div 4096 * 64 + r div 64 mod 64) * 64 + r mod 64 = r" by simp
  then show ?thesis by (simp add: algebra_simps)
qed

lemma base64_4:
  "r div 262144 * 262144 + r div 4096 mod 64 * 4096 + r div 64 mod 64 * 64 + r mod 64 = (r::nat)"
proof -
  have "r div 262144 = r div 4096 div 64" by (simp add: div_mult2_eq [symmetric])
  then have "r div 262144 * 64 + r div 4096 mod 64 = r div 4096" by simp
  then have "(r div 262144 * 64 + r div 4096 mod 64) * 4096 = r div 4096 * 4096" by simp
  then have "r div 262144 * 262144 + r div 4096 mod 64 * 4096 = r div 4096 * 4096"
    by (simp add: algebra_simps)
  then show ?thesis using base64_3 [of r] by simp
qed

lemma decode_encode_2:
  assumes "128 \<le> r" and "r < 2048"
  shows "decode_rune (encode_scalar r @ s) = (r, 2)"
proof -
  define a where "a = r div 64"
  define b where "b = r mod 64"
  have r: "r = a * 64 + b" and b: "b < 64" by (simp_all add: a_def b_def)
  have a: "2 \<le> a" "a < 32" using assms r b by auto
  have "encode_scalar r = map char_of_byte [192 + a, 128 + b]"
    using assms by (simp add: encode_scalar_def a_def b_def)
  then show ?thesis using a b r by (simp add: decode_rune_def is_cont_def)
qed

lemma decode_encode_3:
  assumes "2048 \<le> r" and "r < 65536" and "is_scalar r"
  shows "decode_rune (encode_scalar r @ s) = (r, 3)"
proof -
  define a b c where "a = r div 4096" and "b = r div 64 mod 64" and "c = r mod 64"
  have r: "r = a * 4096 + b * 64 + c" and bc: "b < 64" "c < 64"
    using base64_3 [of r] by (simp_all add: a_def b_def c_def)
  have a: "a < 16" using assms r bc by auto
  have e: "encode_scalar r = map char_of_byte [224 + a, 128 + b, 128 + c]"
    using assms by (simp add: encode_scalar_def a_def b_def c_def)
  have "a = 0 \<Longrightarrow> 32 \<le> b" using assms(1) r bc by auto
  moreover have "a = 13 \<Longrightarrow> b < 32" using assms(3) r bc by (auto simp: is_scalar_def)
  ultimately have "second_ok (224 + a) (128 + b)"
    using a bc by (auto simp: second_ok_def is_cont_def)
  then show ?thesis unfolding e using a bc r [symmetric] by (simp add: decode_rune_def is_cont_def)
qed

lemma decode_encode_4:
  assumes "65536 \<le> r" and "r < 1114112"
  shows "decode_rune (encode_scalar r @ s) = (r, 4)"
proof -
  define a b c d where "a = r div 262144" and "b = r div 4096 mod 64"
    and "c = r div 64 mod 64" and "d = r mod 64"
  have r: "r = a * 262144 + b * 4096 + c * 64 + d" and bcd: "b < 64" "c < 64" "d < 64"
    using base64_4 [of r] by (simp_all add: a_def b_def c_def d_def)
  have a: "a < 5" using assms r bcd by auto
  have e: "encode_scalar r = map char_of_byte [240 + a, 128 + b, 128 + c, 128 + d]"
    using assms by (simp add: encode_scalar_def a_def b_def c_def d_def)
  have "a = 0 \<Longrightarrow> 16 \<le> b" using assms(1) r bcd by auto
  moreover have "a = 4 \<Longrightarrow> b < 16" using assms(2) r bcd by auto
  ultimately have "second_ok (240 + a) (128 + b)"
    using a bcd by (auto simp: second_ok_def is_cont_def)
  then show ?thesis unfolding e using a bcd r [symmetric] by (simp add: decode_rune_def is_cont_def)
qed

lemma length_encode_scalar:
  "length (encode_scalar r) = (if r < 128 then 1 else if r < 2048 then 2 else if r < 65536 then 3 else 4)"
  by (simp add: encode_scalar_def)

lemma decode_encode:
  assumes "is_scalar r"
  shows "decode_rune (encode_rune r @ s) = (r, length (encode_rune r))"
proof -
  consider "r < 128" | "128 \<le> r" "r < 2048" | "2048 \<le> r" "r < 65536" | "65536 \<le> r" by linarith
  then show ?thesis
  proof cases
    case 1
    then show ?thesis
      using assms by (simp add: encode_rune_def encode_scalar_def decode_rune_def)
  qed (use assms in \<open>simp_all add: encode_rune_def length_encode_scalar decode_encode_2
        decode_encode_3 decode_encode_4 is_scalar_def\<close>)
qed

lemma encode_rune_nonempty [simp]: "encode_rune r \<noteq> []"
  by (simp add: encode_rune_def encode_scalar_def)

lemma to_runes_of_runes: "list_all is_scalar rs \<Longrightarrow> to_runes (of_runes rs) = rs"
proof (induction rs)
  case (Cons r rs)
  then show ?case
    by (subst to_runes.simps) (simp add: decode_encode)
qed simp

text \<open>Everything that decoding produces is a scalar value.\<close>

lemma scalar_3:
  assumes "224 \<le> b0" and "b0 \<le> 239" and "second_ok b0 b1" and "is_cont b2"
  shows "is_scalar ((b0 - 224) * 4096 + (b1 - 128) * 64 + (b2 - 128))"
proof -
  have b: "128 \<le> b1" "b1 \<le> 191" "b2 \<le> 191" "b0 = 237 \<Longrightarrow> b1 \<le> 159"
    using assms by (auto simp: second_ok_def is_cont_def split: if_splits)
  consider "b0 \<le> 236" | "b0 = 237" | "238 \<le> b0" by linarith
  then show ?thesis
  proof cases
    case 1
    then have "b0 - 224 \<le> 12" by simp
    then show ?thesis using b unfolding is_scalar_def by linarith
  next
    case 2
    with b have "b0 - 224 = 13" "b1 - 128 \<le> 31" "b2 - 128 \<le> 63" by simp_all
    then show ?thesis unfolding is_scalar_def by linarith
  next
    case 3
    then have "14 \<le> b0 - 224" "b0 - 224 \<le> 15" using assms by simp_all
    then show ?thesis using b unfolding is_scalar_def by linarith
  qed
qed

lemma scalar_4:
  assumes "240 \<le> b0" and "b0 \<le> 244" and "second_ok b0 b1" and "is_cont b2" and "is_cont b3"
  shows "is_scalar ((b0 - 240) * 262144 + (b1 - 128) * 4096 + (b2 - 128) * 64 + (b3 - 128))"
proof -
  have b: "128 \<le> b1" "b1 \<le> 191" "b2 \<le> 191" "b3 \<le> 191"
    "b0 = 240 \<Longrightarrow> 144 \<le> b1" "b0 = 244 \<Longrightarrow> b1 \<le> 143"
    using assms by (auto simp: second_ok_def is_cont_def split: if_splits)
  consider "b0 = 240" | "1 \<le> b0 - 240" "b0 - 240 \<le> 3" | "b0 = 244" using assms by linarith
  then show ?thesis
  proof cases
    case 1
    with b have "b0 - 240 = 0" "16 \<le> b1 - 128" "b1 - 128 \<le> 63" "b2 - 128 \<le> 63" "b3 - 128 \<le> 63"
      by simp_all
    then show ?thesis unfolding is_scalar_def by linarith
  next
    case 2
    then show ?thesis using b unfolding is_scalar_def by linarith
  next
    case 3
    with b have "b0 - 240 = 4" "b1 - 128 \<le> 15" "b2 - 128 \<le> 63" "b3 - 128 \<le> 63"
      by simp_all
    then show ?thesis unfolding is_scalar_def by linarith
  qed
qed

lemma scalar_2: "194 \<le> b0 \<Longrightarrow> b0 \<le> 223 \<Longrightarrow> is_cont b1 \<Longrightarrow> is_scalar ((b0 - 192) * 64 + (b1 - 128))"
  by (auto simp: is_scalar_def is_cont_def)

lemma decode_scalar: "is_scalar (fst (decode_rune s))"
proof -
  have "is_scalar rune_error" by (simp add: is_scalar_def rune_error_def)
  moreover have "is_scalar b" if "b < 128" for b using that by (simp add: is_scalar_def)
  ultimately show ?thesis
    by (simp add: decode_rune_def scalar_2 scalar_3 scalar_4 split: list.split)
qed

lemma to_runes_scalar: "list_all is_scalar (to_runes s)"
proof (induction s rule: to_runes.induct)
  case (1 s)
  then show ?case by (subst to_runes.simps) (simp add: decode_scalar)
qed

definition valid_utf8 :: "string \<Rightarrow> bool" where
  "valid_utf8 s \<longleftrightarrow> of_runes (to_runes s) = s"

lemma valid_utf8_of_runes: "list_all is_scalar rs \<Longrightarrow> valid_utf8 (of_runes rs)"
  by (simp add: valid_utf8_def to_runes_of_runes)

lemma valid_utf8E:
  assumes "valid_utf8 s"
  obtains rs where "list_all is_scalar rs" and "s = of_runes rs"
  using assms to_runes_scalar [of s] that by (metis valid_utf8_def)

lemma length_to_runes: "length (to_runes s) \<le> length s"
proof (induction s rule: to_runes.induct)
  case (1 s)
  show ?case
  proof (cases "s = []")
    case False
    with 1 decode_width [OF False] show ?thesis
      by (subst to_runes.simps) (cases s; auto)
  qed simp
qed

lemma length_of_runes: "length (of_runes rs) \<le> 4 * length rs"
proof (induction rs)
  case (Cons r rs)
  have "length (encode_rune r) \<le> 4" by (simp add: encode_rune_def length_encode_scalar)
  with Cons show ?case by simp
qed simp

text \<open>ASCII strings are their own runes.\<close>

definition ascii :: "string \<Rightarrow> bool" where
  "ascii s \<longleftrightarrow> list_all (\<lambda>c. byte_of c < 128) s"

lemma of_runes_ascii: "ascii s \<Longrightarrow> of_runes (map byte_of s) = s"
  by (induction s) (auto simp: ascii_def encode_rune_def encode_scalar_def is_scalar_def)

lemma ascii_scalar: "ascii s \<Longrightarrow> list_all is_scalar (map byte_of s)"
  by (auto simp: ascii_def list_all_iff is_scalar_def)

lemma valid_utf8_ascii: "ascii s \<Longrightarrow> valid_utf8 s"
  using valid_utf8_of_runes [OF ascii_scalar] of_runes_ascii by metis

lemma to_runes_ascii: "ascii s \<Longrightarrow> to_runes s = map byte_of s"
  using to_runes_of_runes [OF ascii_scalar] of_runes_ascii by metis

end
