(* ===== verification/GoJson.thy ===== *)
theory GoJson
  imports GoUtf8 "HOL-Library.Monad_Syntax"
begin

text \<open>
  What the program uses of \<open>encoding/json\<close>: the grammar of JSON texts (the scanner and the
  string unquoting of the decoder), the compact encoder with HTML escaping, and the decoding
  of a JSON value into Go structs.
\<close>

section \<open>JSON values\<close>

datatype json =
    JNull
  | JBool bool
  | JNum string  \<comment> \<open>the literal, as in the text\<close>
  | JStr string
  | JArr "json list"
  | JObj "(string \<times> json) list"  \<comment> \<open>members in textual order, duplicates kept\<close>

section \<open>Scanning\<close>

definition is_space :: "char \<Rightarrow> bool" where
  "is_space c \<longleftrightarrow> byte_of c \<in> {32, 9, 13, 10}"

fun skip_ws :: "string \<Rightarrow> string" where
  "skip_ws [] = []"
| "skip_ws (c # s) = (if is_space c then skip_ws s else c # s)"

definition quote_char :: char where
  "quote_char = CHR 0x22"

definition backslash :: char where
  "backslash = CHR 0x5C"

text \<open>Numbers: \<open>-? (0 | [1-9][0-9]*) (\.[0-9]+)? ([eE][+-]?[0-9]+)?\<close>.\<close>

definition scan_int :: "string \<Rightarrow> (string \<times> string) option" where
  "scan_int s =
     (case s of
        [] \<Rightarrow> None
      | c # r \<Rightarrow>
          if c = CHR ''0'' then Some ([c], r)
          else if is_digit c then Some (takeWhile is_digit s, dropWhile is_digit s)
          else None)"

definition scan_frac :: "string \<Rightarrow> (string \<times> string) option" where
  "scan_frac s =
     (case s of
        [] \<Rightarrow> Some ([], [])
      | c # r \<Rightarrow>
          if c \<noteq> CHR ''.'' then Some ([], s)
          else if takeWhile is_digit r = [] then None
          else Some (c # takeWhile is_digit r, dropWhile is_digit r))"

definition scan_sign :: "string \<Rightarrow> string \<times> string" where
  "scan_sign s =
     (case s of
        [] \<Rightarrow> ([], [])
      | d # r \<Rightarrow> if d = CHR ''+'' \<or> d = CHR ''-'' then ([d], r) else ([], s))"

definition scan_exp :: "string \<Rightarrow> (string \<times> string) option" where
  "scan_exp s =
     (case s of
        [] \<Rightarrow> Some ([], [])
      | c # r \<Rightarrow>
          if c \<noteq> CHR ''e'' \<and> c \<noteq> CHR ''E'' then Some ([], s)
          else (let (sg, r') = scan_sign r
                in if takeWhile is_digit r' = [] then None
                   else Some (c # sg @ takeWhile is_digit r', dropWhile is_digit r')))"

definition scan_minus :: "string \<Rightarrow> string \<times> string" where
  "scan_minus s =
     (case s of [] \<Rightarrow> ([], []) | c # r \<Rightarrow> if c = CHR ''-'' then ([c], r) else ([], s))"

definition scan_number :: "string \<Rightarrow> (string \<times> string) option" where
  "scan_number s =
     (let (sg, s1) = scan_minus s in do {
        (a, s2) \<leftarrow> scan_int s1;
        (b, s3) \<leftarrow> scan_frac s2;
        (c, s4) \<leftarrow> scan_exp s3;
        Some (sg @ a @ b @ c, s4)
      })"

section \<open>Strings\<close>

definition hex_val :: "char \<Rightarrow> nat option" where
  "hex_val c =
     (let b = byte_of c in
      if 48 \<le> b \<and> b \<le> 57 then Some (b - 48)
      else if 97 \<le> b \<and> b \<le> 102 then Some (b - 87)
      else if 65 \<le> b \<and> b \<le> 70 then Some (b - 55)
      else None)"

definition hex4 :: "string \<Rightarrow> (nat \<times> string) option" where
  "hex4 s =
     (case s of
        a # b # c # d # r \<Rightarrow> do {
          x \<leftarrow> hex_val a; y \<leftarrow> hex_val b; z \<leftarrow> hex_val c; w \<leftarrow> hex_val d;
          Some (((x * 16 + y) * 16 + z) * 16 + w, r)
        }
      | _ \<Rightarrow> None)"

text \<open>The one-character escapes.\<close>

definition simple_escape :: "char \<Rightarrow> char option" where
  "simple_escape c =
     (if c = quote_char \<or> c = backslash \<or> c = CHR ''/'' then Some c
      else if c = CHR ''b'' then Some (CHR 0x08)
      else if c = CHR ''f'' then Some (CHR 0x0C)
      else if c = CHR ''n'' then Some (CHR 0x0A)
      else if c = CHR ''r'' then Some (CHR 0x0D)
      else if c = CHR ''t'' then Some (CHR 0x09)
      else None)"

definition high_surrogate :: "nat \<Rightarrow> bool" where
  "high_surrogate u \<longleftrightarrow> 55296 \<le> u \<and> u < 56320"

definition low_surrogate :: "nat \<Rightarrow> bool" where
  "low_surrogate u \<longleftrightarrow> 56320 \<le> u \<and> u < 57344"

text \<open>After \<open>\u\<close>: the rune, and what follows.  A valid surrogate pair is one rune; a lone
  surrogate is U+FFFD.\<close>

definition unescape_u :: "string \<Rightarrow> (string \<times> string) option" where
  "unescape_u s = do {
     (u, r) \<leftarrow> hex4 s;
     (if high_surrogate u then
        (case r of
           a # b # r1 \<Rightarrow>
             if a = backslash \<and> b = CHR ''u'' then
               (case hex4 r1 of
                  Some (v, r2) \<Rightarrow>
                    if low_surrogate v
                    then Some (encode_rune ((u - 55296) * 1024 + (v - 56320) + 65536), r2)
                    else Some (encode_rune rune_error, r)
                | None \<Rightarrow> Some (encode_rune rune_error, r))
             else Some (encode_rune rune_error, r)
         | _ \<Rightarrow> Some (encode_rune rune_error, r))
      else Some (encode_rune u, r))
   }"

text \<open>The body of a string literal after its opening quote, one step: the decoded bytes of the
  next character, and what follows; \<open>None\<close> for an invalid literal.\<close>

definition unquote_step :: "string \<Rightarrow> (string \<times> string) option" where
  "unquote_step s =
     (case s of
        [] \<Rightarrow> None
      | c # r \<Rightarrow>
          if byte_of c < 32 then None
          else if c = backslash then
            (case r of
               [] \<Rightarrow> None
             | e # r1 \<Rightarrow>
                 if e = CHR ''u'' then unescape_u r1
                 else map_option (\<lambda>x. ([x], r1)) (simple_escape e))
          else if byte_of c < 128 then Some ([c], r)
          else Some (encode_rune (fst (decode_rune s)), drop (snd (decode_rune s)) s))"

lemma hex4_length: "hex4 s = Some (u, r) \<Longrightarrow> length r < length s"
  by (auto simp: hex4_def split: list.splits bind_splits)

lemma unescape_u_length: "unescape_u s = Some (x, r) \<Longrightarrow> length r < length s"
  by (auto simp: unescape_u_def split: list.splits bind_splits if_splits option.splits
      dest!: hex4_length)

lemma unquote_step_length: "unquote_step s = Some (x, r) \<Longrightarrow> length r < length s"
  using decode_width [of s]
  by (auto simp: unquote_step_def split: list.splits if_splits option.splits
      dest!: unescape_u_length)

function unquote :: "string \<Rightarrow> (string \<times> string) option" where
  "unquote s =
     (if s \<noteq> [] \<and> hd s = quote_char then Some ([], tl s)
      else case unquote_step s of
        None \<Rightarrow> None
      | Some (x, r) \<Rightarrow> map_option (\<lambda>(y, t). (x @ y, t)) (unquote r))"
  by pat_completeness auto
termination
  by (relation "measure length") (auto dest: unquote_step_length)

declare unquote.simps [simp del]

section \<open>Values\<close>

text \<open>Every call spends one unit of fuel; \<open>parse_value_enough\<close> below shows that
  twice the length of the text and one is always enough.\<close>

fun parse_value :: "nat \<Rightarrow> string \<Rightarrow> (json \<times> string) option"
  and parse_elems :: "nat \<Rightarrow> string \<Rightarrow> (json list \<times> string) option"
  and parse_members :: "nat \<Rightarrow> string \<Rightarrow> ((string \<times> json) list \<times> string) option" where
  "parse_value 0 s = None"
| "parse_value (Suc n) s =
     (case skip_ws s of
        [] \<Rightarrow> None
      | c # r \<Rightarrow>
          if c = CHR ''{'' then
            (case skip_ws r of
               [] \<Rightarrow> None
             | d # r1 \<Rightarrow>
                 if d = CHR ''}'' then Some (JObj [], r1)
                 else map_option (\<lambda>(ms, t). (JObj ms, t)) (parse_members n r))
          else if c = CHR ''['' then
            (case skip_ws r of
               [] \<Rightarrow> None
             | d # r1 \<Rightarrow>
                 if d = CHR '']'' then Some (JArr [], r1)
                 else map_option (\<lambda>(vs, t). (JArr vs, t)) (parse_elems n r))
          else if c = quote_char then map_option (\<lambda>(x, t). (JStr x, t)) (unquote r)
          else if HasPrefix (c # r) ''true'' then Some (JBool True, drop 4 (c # r))
          else if HasPrefix (c # r) ''false'' then Some (JBool False, drop 5 (c # r))
          else if HasPrefix (c # r) ''null'' then Some (JNull, drop 4 (c # r))
          else map_option (\<lambda>(x, t). (JNum x, t)) (scan_number (c # r)))"
| "parse_elems 0 s = None"
| "parse_elems (Suc n) s =
     (case parse_value n s of
        None \<Rightarrow> None
      | Some (v, r) \<Rightarrow>
          (case skip_ws r of
             [] \<Rightarrow> None
           | d # r1 \<Rightarrow>
               if d = CHR '']'' then Some ([v], r1)
               else if d = CHR '','' then map_option (\<lambda>(vs, t). (v # vs, t)) (parse_elems n r1)
               else None))"
| "parse_members 0 s = None"
| "parse_members (Suc n) s =
     (case skip_ws s of
        [] \<Rightarrow> None
      | q # r \<Rightarrow>
          if q \<noteq> quote_char then None
          else case unquote r of
            None \<Rightarrow> None
          | Some (k, r1) \<Rightarrow>
              (case skip_ws r1 of
                 [] \<Rightarrow> None
               | d # r2 \<Rightarrow>
                   if d \<noteq> CHR '':'' then None
                   else case parse_value n r2 of
                     None \<Rightarrow> None
                   | Some (v, r3) \<Rightarrow>
                       (case skip_ws r3 of
                          [] \<Rightarrow> None
                        | e # r4 \<Rightarrow>
                            if e = CHR ''}'' then Some ([(k, v)], r4)
                            else if e = CHR '','' then
                              map_option (\<lambda>(ms, t). ((k, v) # ms, t)) (parse_members n r4)
                            else None)))"

text \<open>Nesting of arrays and objects; the scanner refuses more than 10000 levels.\<close>

fun json_depth :: "json \<Rightarrow> nat" where
  "json_depth (JArr vs) = Suc (fold max (map json_depth vs) 0)"
| "json_depth (JObj ms) = Suc (fold max (map (\<lambda>(k, v). json_depth v) ms) 0)"
| "json_depth _ = 0"

definition max_depth :: nat where
  "max_depth = 10000"

definition parse_fuel :: "string \<Rightarrow> nat" where
  "parse_fuel s = 2 * length s + 1"

text \<open>The text of a whole document (\<open>json.Unmarshal\<close>) and the first value of a stream
  (\<open>Decoder.Decode\<close>, which does not look at what follows).\<close>

definition parse_doc :: "string \<Rightarrow> json option" where
  "parse_doc s =
     (case parse_value (parse_fuel s) s of
        Some (v, r) \<Rightarrow> if skip_ws r = [] \<and> json_depth v \<le> max_depth then Some v else None
      | None \<Rightarrow> None)"

definition parse_first :: "string \<Rightarrow> json option" where
  "parse_first s =
     (case parse_value (parse_fuel s) s of
        Some (v, r) \<Rightarrow> if json_depth v \<le> max_depth then Some v else None
      | None \<Rightarrow> None)"

section \<open>The fuel is enough\<close>

lemma skip_ws_length: "length (skip_ws s) \<le> length s"
  by (induction s) auto

lemma skip_ws_Cons: "skip_ws s = c # r \<Longrightarrow> length r < length s"
  using skip_ws_length [of s] by simp

lemma unquote_length: "unquote s = Some (x, r) \<Longrightarrow> length r < length s"
proof (induction s arbitrary: x r rule: unquote.induct)
  case (1 s)
  show ?case
  proof (cases "s \<noteq> [] \<and> hd s = quote_char")
    case True
    then have "unquote s = Some ([], tl s)" by (simp add: unquote.simps [of s])
    with "1.prems" True show ?thesis by (cases s) auto
  next
    case False
    with "1.prems" obtain y t z where st: "unquote_step s = Some (y, t)" and u: "unquote t = Some (z, r)"
      by (auto simp: unquote.simps [of s] split: option.splits)
    from "1.IH" [OF False st refl u] unquote_step_length [OF st] show ?thesis by simp
  qed
qed

lemma dropWhile_length: "length (dropWhile P s) \<le> length s"
  by (induction s) auto

lemma scan_int_length: "scan_int s = Some (x, r) \<Longrightarrow> length r < length s"
  using dropWhile_length [of is_digit "tl s"]
  by (auto simp: scan_int_def split: list.splits if_splits)

lemma scan_frac_length: "scan_frac s = Some (x, r) \<Longrightarrow> length r \<le> length s"
  using dropWhile_length [of is_digit "tl s"]
  by (auto simp: scan_frac_def split: list.splits if_splits)

lemma scan_exp_length: "scan_exp s = Some (x, r) \<Longrightarrow> length r \<le> length s"
proof -
  have sg: "length (snd (scan_sign r)) \<le> length r" for r
    by (auto simp: scan_sign_def split: list.splits)
  assume "scan_exp s = Some (x, r)"
  then show ?thesis
    using sg [of "tl s"] dropWhile_length [of is_digit "snd (scan_sign (tl s))"]
    by (auto simp: scan_exp_def split: list.splits if_splits prod.splits)
qed

lemma scan_number_length:
  assumes "scan_number s = Some (x, r)"
  shows "length r < length s"
proof -
  obtain sg s1 where m: "scan_minus s = (sg, s1)" by fastforce
  obtain a s2 b s3 c where i: "scan_int s1 = Some (a, s2)" and f: "scan_frac s2 = Some (b, s3)"
    and e: "scan_exp s3 = Some (c, r)"
    using assms by (auto simp: scan_number_def m split: bind_splits)
  have "length s1 \<le> length s" using m by (auto simp: scan_minus_def split: list.splits if_splits)
  with scan_int_length [OF i] scan_frac_length [OF f] scan_exp_length [OF e] show ?thesis by simp
qed

lemma parse_length:
  "parse_value n s = Some (v, r) \<Longrightarrow> length r < length s"
  "parse_elems n s = Some (vs, r) \<Longrightarrow> length r < length s"
  "parse_members n s = Some (ms, r) \<Longrightarrow> length r < length s"
proof (induction n s and n s and n s arbitrary: v r and vs r and ms r
    rule: parse_value_parse_elems_parse_members.induct)
  case (2 n s)
  then show ?case
    by (auto split: list.splits if_splits dest!: skip_ws_Cons unquote_length scan_number_length)
      (force intro: less_trans)+
next
  case (4 n s)
  then show ?case
    by (auto split: list.splits if_splits option.splits dest!: skip_ws_Cons)
      (metis less_trans)
next
  case (6 n s)
  then show ?case 
    by (auto split: list.splits if_splits option.splits dest!: skip_ws_Cons unquote_length)
      (metis less_trans)+
qed simp_all

text \<open>One more unit of fuel changes nothing once there is enough.\<close>

lemma parse_fuel_step:
  "2 * length s + 1 \<le> n \<Longrightarrow> parse_value (Suc n) s = parse_value n s"
  "2 * length s + 2 \<le> n \<Longrightarrow> parse_elems (Suc n) s = parse_elems n s"
  "2 * length s + 1 \<le> n \<Longrightarrow> parse_members (Suc n) s = parse_members n s"
proof (induction n arbitrary: s)
  case (Suc n)
  {
    case 1
    have m: "parse_members (Suc n) r = parse_members n r" if "length r < length s" for r
      by (rule Suc.IH(3)) (use 1 that in linarith)
    have e: "parse_elems (Suc n) r = parse_elems n r" if "length r < length s" for r
      by (rule Suc.IH(2)) (use 1 that in linarith)
    show ?case
      unfolding parse_value.simps(2) [of "Suc n" s] parse_value.simps(2) [of n s]
      by (auto simp del: parse_value.simps parse_elems.simps parse_members.simps simp: m e skip_ws_Cons split: list.split)
  next
    case 2
    have v: "parse_value (Suc n) s = parse_value n s" by (rule Suc.IH(1)) (use 2 in linarith)
    have e: "parse_elems (Suc n) r = parse_elems n r" if "length r < length s" for r
      by (rule Suc.IH(2)) (use 2 that in linarith)
    have r: "length r1 < length s" if "parse_value n s = Some (x, r)" "skip_ws r = d # r1" for x r d r1
      using parse_length(1) [OF that(1)] skip_ws_Cons [OF that(2)] by simp
    show ?case
      unfolding parse_elems.simps(2) [of "Suc n" s] parse_elems.simps(2) [of n s]
      by (auto simp del: parse_value.simps parse_elems.simps parse_members.simps simp: v e r split: option.split list.split)
  next
    case 3
    have v: "parse_value (Suc n) r = parse_value n r" if "length r < length s" for r
      by (rule Suc.IH(1)) (use 3 that in linarith)
    have m: "parse_members (Suc n) r = parse_members n r" if "length r < length s" for r
      by (rule Suc.IH(3)) (use 3 that in linarith)
    have r2: "length r2 < length s"
      if "skip_ws s = q # r" "unquote r = Some (k, r1)" "skip_ws r1 = d # r2" for q r k r1 d r2
      using skip_ws_Cons [OF that(1)] unquote_length [OF that(2)] skip_ws_Cons [OF that(3)] by simp
    have r4: "length r4 < length s"
      if "skip_ws s = q # r" "unquote r = Some (k, r1)" "skip_ws r1 = d # r2"
        "parse_value n r2 = Some (x, r3)" "skip_ws r3 = e # r4" for q r k r1 d r2 x r3 e r4
      using r2 [OF that(1-3)] parse_length(1) [OF that(4)] skip_ws_Cons [OF that(5)] by simp
    show ?case
      unfolding parse_members.simps(2) [of "Suc n" s] parse_members.simps(2) [of n s]
      by (auto simp del: parse_value.simps parse_elems.simps parse_members.simps simp: v m r2 r4 split: option.split list.split)
  }
qed simp_all

lemma parse_value_enough:
  assumes "2 * length s + 1 \<le> n"
  shows "parse_value n s = parse_value (parse_fuel s) s"
  using assms
proof (induction n rule: dec_induct)
  case (step n)
  then show ?case using parse_fuel_step(1) [of s n] by simp
qed (simp add: parse_fuel_def)

section \<open>The encoder\<close>

definition hex_digit :: "nat \<Rightarrow> char" where
  "hex_digit n = char_of_byte (if n < 10 then 48 + n else 87 + n)"

definition u_escape :: "nat \<Rightarrow> string" where
  "u_escape u = backslash # CHR ''u'' #
     [hex_digit (u div 4096), hex_digit (u div 256 mod 16), hex_digit (u div 16 mod 16), hex_digit (u mod 16)]"

text \<open>Bytes below 128: quotes, backslashes, control characters and the characters that HTML
  treats specially are escaped.\<close>

definition quote_ascii :: "nat \<Rightarrow> string" where
  "quote_ascii b =
     (if b = 34 \<or> b = 92 then [backslash, char_of_byte b]
      else if b = 8 then [backslash, CHR ''b'']
      else if b = 12 then [backslash, CHR ''f'']
      else if b = 10 then [backslash, CHR ''n'']
      else if b = 13 then [backslash, CHR ''r'']
      else if b = 9 then [backslash, CHR ''t'']
      else if b < 32 \<or> b = 60 \<or> b = 62 \<or> b = 38 then u_escape b
      else [char_of_byte b])"

function quote_body :: "string \<Rightarrow> string" where
  "quote_body s =
     (if s = [] then []
      else (let (r, n) = decode_rune s in
        (if r < 128 then quote_ascii r
         else if r = rune_error \<and> n = 1 then u_escape rune_error
         else if r = 8232 \<or> r = 8233 then u_escape r
         else take n s) @ quote_body (drop (snd (decode_rune s)) s)))"
  by pat_completeness auto
termination
proof (relation "measure length")
  fix s :: string and x y z
  assume "s \<noteq> []"
  then show "(drop (snd (decode_rune s)) s, s) \<in> measure length"
    using decode_width [of s] by (cases s) auto
qed simp

declare quote_body.simps [simp del]

definition quote :: "string \<Rightarrow> string" where
  "quote s = quote_char # quote_body s @ [quote_char]"

fun print_json :: "json \<Rightarrow> string" where
  "print_json JNull = ''null''"
| "print_json (JBool b) = (if b then ''true'' else ''false'')"
| "print_json (JNum x) = x"
| "print_json (JStr s) = quote s"
| "print_json (JArr vs) = ''['' @ Join (map print_json vs) '','' @ '']''"
| "print_json (JObj ms) = ''{'' @ Join (map (\<lambda>(k, v). quote k @ CHR '':'' # print_json v) ms) '','' @ ''}''"

text \<open>Values that the encoder writes faithfully: valid UTF-8 and number literals.\<close>

definition is_number :: "string \<Rightarrow> bool" where
  "is_number x \<longleftrightarrow> scan_number x = Some (x, [])"

fun wf_json :: "json \<Rightarrow> bool" where
  "wf_json (JNum x) = is_number x"
| "wf_json (JStr s) = valid_utf8 s"
| "wf_json (JArr vs) = list_all wf_json vs"
| "wf_json (JObj ms) = list_all (\<lambda>(k, v). valid_utf8 k \<and> wf_json v) ms"
| "wf_json _ = True"

section \<open>What the encoder writes, the decoder reads\<close>

text \<open>What may follow a value inside an array or object, or at the end.\<close>

definition value_end :: "string \<Rightarrow> bool" where
  "value_end t \<longleftrightarrow> t = [] \<or> hd t \<in> {CHR '','', CHR '']'', CHR ''}''}"

lemma stops_Cons [simp]: "value_end (c # t) \<longleftrightarrow> c \<in> {CHR '','', CHR '']'', CHR ''}''}"
  by (simp add: value_end_def)

lemma stops_not_digit: "value_end t \<Longrightarrow> t \<noteq> [] \<Longrightarrow> \<not> is_digit (hd t)"
  by (auto simp: value_end_def is_digit_def byte_of_def)

lemma takeWhile_stops: "value_end t \<Longrightarrow> takeWhile is_digit (s @ t) = takeWhile is_digit s"
  by (induction s) (use stops_not_digit [of t] in \<open>cases t; auto\<close>)+

lemma dropWhile_stops: "value_end t \<Longrightarrow> dropWhile is_digit (s @ t) = dropWhile is_digit s @ t"
  by (induction s) (use stops_not_digit [of t] in \<open>cases t; auto\<close>)+

lemma scan_int_append:
  "scan_int s = Some (a, r) \<Longrightarrow> value_end t \<Longrightarrow> scan_int (s @ t) = Some (a, r @ t)"
  using takeWhile_stops [of t s] dropWhile_stops [of t s]
  by (cases s) (auto simp: scan_int_def split: if_splits)

lemma scan_frac_append:
  "scan_frac s = Some (a, r) \<Longrightarrow> value_end t \<Longrightarrow> scan_frac (s @ t) = Some (a, r @ t)"
  using takeWhile_stops [of t "tl s"] dropWhile_stops [of t "tl s"]
  by (cases s; cases t) (auto simp: scan_frac_def split: if_splits)

lemma scan_exp_append:
  "scan_exp s = Some (a, r) \<Longrightarrow> value_end t \<Longrightarrow> scan_exp (s @ t) = Some (a, r @ t)"
proof -
  assume e: "scan_exp s = Some (a, r)" and t: "value_end t"
  show ?thesis
  proof (cases s)
    case Nil
    with e t show ?thesis by (cases t) (auto simp: scan_exp_def)
  next
    case (Cons c r0)
    obtain sg r1 where sg: "scan_sign r0 = (sg, r1)" by fastforce
    then have "scan_sign (r0 @ t) = (sg, r1 @ t)"
      using t by (cases r0; cases t) (auto simp: scan_sign_def split: if_splits)
    with Cons e sg show ?thesis
      by (auto simp: scan_exp_def takeWhile_stops [OF t] dropWhile_stops [OF t] split: if_splits)
  qed
qed

lemma scan_number_append:
  assumes "scan_number s = Some (x, r)" and "value_end t"
  shows "scan_number (s @ t) = Some (x, r @ t)"
proof -
  obtain sg s1 where m: "scan_minus s = (sg, s1)" by fastforce
  from assms(1) obtain a s2 b s3 d where i: "scan_int s1 = Some (a, s2)"
    and f: "scan_frac s2 = Some (b, s3)" and e: "scan_exp s3 = Some (d, r)" and x: "x = sg @ a @ b @ d"
    by (auto simp: scan_number_def m split: bind_splits)
  have "s \<noteq> []" using i m by (auto simp: scan_minus_def scan_int_def)
  then have mt: "scan_minus (s @ t) = (sg, s1 @ t)"
    using m by (cases s) (auto simp: scan_minus_def split: if_splits)
  show ?thesis
    using scan_int_append [OF i assms(2)] scan_frac_append [OF f assms(2)]
      scan_exp_append [OF e assms(2)] x
    by (simp add: scan_number_def mt)
qed

section \<open>Strings\<close>

lemma hex_val_digit [simp]: "n < 16 \<Longrightarrow> hex_val (hex_digit n) = Some n"
  by (auto simp: hex_val_def hex_digit_def Let_def)

lemma hex4_digits:
  assumes "u < 65536"
  shows "hex4 (hex_digit (u div 4096) # hex_digit (u div 256 mod 16) # hex_digit (u div 16 mod 16) #
           hex_digit (u mod 16) # t) = Some (u, t)"
proof -
  have "u div 256 = u div 16 div 16" "u div 4096 = u div 256 div 16"
    by (simp_all add: div_mult2_eq [symmetric])
  then have "((u div 4096 * 16 + u div 256 mod 16) * 16 + u div 16 mod 16) * 16 + u mod 16 = u"
    by simp
  moreover have "u div 4096 < 16" using assms by (simp add: div_less_iff_less_mult)
  ultimately show ?thesis by (simp add: hex4_def)
qed

lemma byte_backslash: "byte_of backslash = 92" and byte_quote: "byte_of quote_char = 34"
  by (simp_all add: byte_of_def backslash_def quote_char_def)

lemma backslash_neq: "backslash \<noteq> quote_char"
  by (simp add: backslash_def quote_char_def)

lemma unquote_u_escape:
  assumes "u < 55296"
  shows "unquote_step (u_escape u @ t) = Some (encode_rune u, t)"
proof -
  have "\<not> high_surrogate u" "u < 65536" using assms by (simp_all add: high_surrogate_def)
  then show ?thesis
    by (simp add: unquote_step_def u_escape_def byte_backslash unescape_u_def hex4_digits)
qed

lemma encode_ascii: "b < 128 \<Longrightarrow> encode_rune b = [char_of_byte b]"
  by (simp add: encode_rune_def encode_scalar_def is_scalar_def)

lemma char_of_byte_eq: "b < 256 \<Longrightarrow> char_of_byte b = c \<longleftrightarrow> b = byte_of c"
  by auto

lemma char_34: "char_of_byte 34 = quote_char" and char_92: "char_of_byte 92 = backslash"
  by (simp_all add: char_of_byte_eq byte_quote byte_backslash)

lemma simple_escape_quote:
  "simple_escape quote_char = Some quote_char" "simple_escape backslash = Some backslash"
  by (simp_all add: simple_escape_def)

lemma simple_escape_letter:
  "simple_escape CHR ''b'' = Some (CHR 0x08)" "simple_escape CHR ''f'' = Some (CHR 0x0C)"
  "simple_escape CHR ''n'' = Some (CHR 0x0A)" "simple_escape CHR ''r'' = Some (CHR 0x0D)"
  "simple_escape CHR ''t'' = Some (CHR 0x09)"
  by (simp_all add: simple_escape_def quote_char_def backslash_def)

lemma simple_escape_u: "simple_escape CHR ''u'' = None"
  by (simp add: simple_escape_def quote_char_def backslash_def)

lemma unquote_escape:
  "simple_escape e = Some x \<Longrightarrow> unquote_step (backslash # e # t) = Some ([x], t)"
  using simple_escape_u by (auto simp: unquote_step_def byte_backslash)

lemma unquote_quote_ascii:
  assumes "b < 128"
  shows "unquote_step (quote_ascii b @ t) = Some (encode_rune b, t)"
proof -
  have sp: "byte_of CHR ''u'' = 117" "byte_of CHR ''b'' = 98" "byte_of CHR ''f'' = 102"
    "byte_of CHR ''n'' = 110" "byte_of CHR ''r'' = 114" "byte_of CHR ''t'' = 116"
    by (simp_all add: byte_of_def)
  consider "b = 34 \<or> b = 92" | "b \<in> {8, 12, 10, 13, 9}"
    | "b \<notin> {34, 92, 8, 12, 10, 13, 9}" "b < 32 \<or> b = 60 \<or> b = 62 \<or> b = 38"
    | "b \<notin> {34, 92, 60, 62, 38}" "32 \<le> b" by fastforce
  then show ?thesis
  proof cases
    case 1
    then show ?thesis
    proof
      assume "b = 34"
      then show ?thesis
        using unquote_escape [of quote_char quote_char t] simple_escape_quote(1)
        by (simp add: quote_ascii_def char_34 encode_ascii)
    next
      assume "b = 92"
      then show ?thesis
        using unquote_escape [of backslash backslash t] simple_escape_quote(2)
        by (simp add: quote_ascii_def char_92 encode_ascii)
    qed
  next
    case 2
    have "char_of_byte 8 = CHR 0x08" "char_of_byte 12 = CHR 0x0C" "char_of_byte 10 = CHR 0x0A"
      "char_of_byte 13 = CHR 0x0D" "char_of_byte 9 = CHR 0x09"
      by (simp_all add: char_of_byte_eq) (simp_all add: byte_of_def)
    then show ?thesis
      using 2 simple_escape_letter
      by (auto simp: quote_ascii_def encode_ascii unquote_escape)
  next
    case 3
    then show ?thesis
      using unquote_u_escape [of b t] assms by (auto simp: quote_ascii_def)
  next
    case 4
    then show ?thesis
      using assms by (auto simp: quote_ascii_def unquote_step_def encode_ascii char_of_byte_eq
          byte_backslash)
  qed
qed

text \<open>The text of one rune inside a string literal.\<close>

definition quote_rune :: "rune \<Rightarrow> string" where
  "quote_rune r =
     (if r < 128 then quote_ascii r
      else if r = 8232 \<or> r = 8233 then u_escape r
      else encode_rune r)"

lemma hd_encode_rune: "128 \<le> r \<Longrightarrow> 128 \<le> byte_of (hd (encode_rune r))"
proof -
  have *: "128 \<le> byte_of (hd (encode_scalar r))" if "128 \<le> r" "is_scalar r" for r
  proof -
    have "r div 64 < 32" if "r < 2048" using that by (simp add: div_less_iff_less_mult)
    moreover have "r div 4096 < 16" if "r < 65536" using that by (simp add: div_less_iff_less_mult)
    moreover have "r div 262144 < 5"
      using \<open>is_scalar r\<close> by (auto simp: div_less_iff_less_mult is_scalar_def)
    ultimately show ?thesis using \<open>128 \<le> r\<close> by (simp add: encode_scalar_def)
  qed
  assume "128 \<le> r"
  then show ?thesis
    using * [of r] * [of rune_error] by (simp add: encode_rune_def is_scalar_def rune_error_def)
qed

lemma quote_body_rune:
  assumes "is_scalar r"
  shows "quote_body (encode_rune r @ s) = quote_rune r @ quote_body s"
proof -
  note d = decode_encode [OF assms, of s]
  have "length (encode_rune rune_error) \<noteq> 1"
    by (simp add: encode_rune_def length_encode_scalar is_scalar_def rune_error_def)
  then show ?thesis
    by (subst quote_body.simps) (auto simp: d quote_rune_def)
qed

lemma unquote_quote_rune:
  assumes "is_scalar r"
  shows "unquote_step (quote_rune r @ t) = Some (encode_rune r, t)"
proof -
  consider "r < 128" | "r = 8232 \<or> r = 8233" | "128 \<le> r" "r \<noteq> 8232" "r \<noteq> 8233" by linarith
  then show ?thesis
  proof cases
    case 1
    then show ?thesis using unquote_quote_ascii by (simp add: quote_rune_def)
  next
    case 2
    then show ?thesis using unquote_u_escape [of r t] by (auto simp: quote_rune_def)
  next
    case 3
    obtain c u where cu: "encode_rune r = c # u" by (cases "encode_rune r") auto
    with hd_encode_rune [OF 3(1)] have "128 \<le> byte_of c" by simp
    moreover from this have "c \<noteq> backslash" using byte_backslash by auto
    ultimately show ?thesis
      using decode_encode [OF assms, of t] 3 cu by (simp add: quote_rune_def unquote_step_def)
  qed
qed

lemma hd_quote_rune:
  assumes "is_scalar r"
  shows "quote_rune r \<noteq> [] \<and> hd (quote_rune r) \<noteq> quote_char"
proof -
  have "hd (encode_rune r) \<noteq> quote_char" if "128 \<le> r"
    using hd_encode_rune [OF that] byte_quote by auto
  moreover have "char_of_byte r \<noteq> quote_char" if "r < 128" "r \<noteq> 34"
    using that by (simp add: char_of_byte_eq byte_quote)
  ultimately show ?thesis
    by (auto simp: quote_rune_def quote_ascii_def u_escape_def backslash_neq)
qed

lemma unquote_quote:
  assumes "valid_utf8 s"
  shows "unquote (quote_body s @ quote_char # t) = Some (s, t)"
proof -
  obtain rs where rs: "list_all is_scalar rs" and s: "s = of_runes rs"
    using valid_utf8E [OF assms] .
  show ?thesis
    using rs unfolding s
  proof (induction rs)
    case Nil
    then show ?case by (simp add: quote_body.simps unquote.simps)
  next
    case (Cons r rs)
    then have r: "is_scalar r" by simp
    show ?case
      using Cons hd_quote_rune [OF r]
      by (subst unquote.simps) (simp add: quote_body_rune [OF r] unquote_quote_rune [OF r])
  qed
qed

section \<open>Values\<close>

text \<open>The first character of a printed value: not a space, not a closing bracket, and it
  selects the branch of the parser.\<close>

lemma number_head:
  assumes "is_number x"
  obtains c s where "x = c # s" and "c = CHR ''-'' \<or> is_digit c"
proof -
  obtain sg s1 where m: "scan_minus x = (sg, s1)" by fastforce
  with assms obtain a s2 where i: "scan_int s1 = Some (a, s2)"
    by (auto simp: is_number_def scan_number_def split: bind_splits)
  from i have "s1 \<noteq> []" "is_digit (hd s1)"
    by (auto simp: scan_int_def is_digit_def byte_of_def split: list.splits if_splits)
  with m that show thesis
    by (cases x) (auto simp: scan_minus_def split: if_splits)
qed

lemma digit_head:
  assumes "c = CHR ''-'' \<or> is_digit c"
  shows "\<not> is_space c" "c \<noteq> quote_char" "c \<noteq> CHR ''{''" "c \<noteq> CHR ''[''" "c \<noteq> CHR '']''" "c \<noteq> CHR ''}''"
    "\<not> HasPrefix (c # s) ''true''" "\<not> HasPrefix (c # s) ''false''" "\<not> HasPrefix (c # s) ''null''"
  using assms
  by (auto simp: is_space_def is_digit_def byte_of_def quote_char_def HasPrefix_def)

lemma space_facts [simp]:
  "\<not> is_space CHR ''{''" "\<not> is_space CHR ''[''" "\<not> is_space CHR ''t''" "\<not> is_space CHR ''f''"
  "\<not> is_space CHR ''n''" "\<not> is_space quote_char" "\<not> is_space CHR '',''" "\<not> is_space CHR '':''"
  "\<not> is_space CHR '']''" "\<not> is_space CHR ''}''"
  by (simp_all add: is_space_def byte_of_def quote_char_def)

lemma quote_facts [simp]:
  "quote_char \<noteq> CHR ''{''" "quote_char \<noteq> CHR ''[''" "quote_char \<noteq> CHR '']''" "quote_char \<noteq> CHR ''}''"
  "CHR ''{'' \<noteq> quote_char" "CHR ''t'' \<noteq> quote_char" "CHR ''f'' \<noteq> quote_char" "CHR ''n'' \<noteq> quote_char"
  by (simp_all add: quote_char_def)

lemma print_head:
  assumes "wf_json v"
  obtains c s where "print_json v = c # s" and "\<not> is_space c" and "c \<noteq> CHR '']''" and "c \<noteq> CHR ''}''"
proof (cases v)
  case (JNum x)
  with assms obtain c s where "x = c # s" "c = CHR ''-'' \<or> is_digit c"
    by (auto elim: number_head)
  with that JNum show thesis using digit_head by simp
next
  case (JBool b)
  with that show thesis by (cases b) simp_all
qed (use that in \<open>simp_all add: quote_def\<close>)

lemma skip_ws_print: "wf_json v \<Longrightarrow> skip_ws (print_json v @ t) = print_json v @ t"
  by (erule print_head [of v]) simp

text \<open>Parsing with enough fuel, for the value \<open>v\<close>.\<close>

definition reads :: "json \<Rightarrow> bool" where
  "reads v \<longleftrightarrow> (\<forall>t. value_end t \<longrightarrow> (\<exists>N. \<forall>n \<ge> N. parse_value n (print_json v @ t) = Some (v, t)))"

lemma readsE:
  assumes "reads v" and "value_end t"
  obtains N where "\<And>n. N \<le> n \<Longrightarrow> parse_value n (print_json v @ t) = Some (v, t)"
  using assms by (auto simp: reads_def)

lemma Suc_le_obtain:
  assumes "Suc N \<le> n"
  obtains m where "n = Suc m" and "N \<le> m"
  using assms by (cases n) auto

lemma elems_read:
  assumes "vs \<noteq> []" and "\<forall>v \<in> set vs. reads v"
  shows "\<exists>N. \<forall>n \<ge> N. parse_elems n (Join (map print_json vs) '','' @ CHR '']'' # t) = Some (vs, t)"
  using assms
proof (induction vs rule: list_nonempty_induct)
  case (single v)
  then obtain N where N: "\<And>n. N \<le> n \<Longrightarrow>
      parse_value n (print_json v @ CHR '']'' # t) = Some (v, CHR '']'' # t)"
    using readsE [of v "CHR '']'' # t"] by auto
  show ?case
    by (rule exI [of _ "Suc N"]) (auto elim!: Suc_le_obtain simp: N)
next
  case (cons v vs)
  let ?r = "Join (map print_json vs) '','' @ CHR '']'' # t"
  obtain N where N: "\<And>n. N \<le> n \<Longrightarrow>
      parse_value n (print_json v @ CHR '','' # ?r) = Some (v, CHR '','' # ?r)"
    using cons.prems readsE [of v "CHR '','' # ?r"] by auto
  obtain M where M: "\<And>n. M \<le> n \<Longrightarrow> parse_elems n ?r = Some (vs, t)"
    using cons by auto
  have j: "Join (map print_json (v # vs)) '','' @ CHR '']'' # t = print_json v @ CHR '','' # ?r"
    using cons.hyps by (cases vs) auto
  show ?case
    unfolding j by (rule exI [of _ "Suc (max N M)"]) (auto elim!: Suc_le_obtain simp: N M)
qed

lemma members_read:
  assumes "ms \<noteq> []" and "\<forall>(k, v) \<in> set ms. valid_utf8 k \<and> reads v \<and> wf_json v"
  shows "\<exists>N. \<forall>n \<ge> N. parse_members n
     (Join (map (\<lambda>(k, v). quote k @ CHR '':'' # print_json v) ms) '','' @ CHR ''}'' # t) = Some (ms, t)"
  using assms
proof (induction ms rule: list_nonempty_induct)
  case (single m)
  obtain k v where m: "m = (k, v)" by (cases m)
  then obtain N where N: "\<And>n. N \<le> n \<Longrightarrow>
      parse_value n (print_json v @ CHR ''}'' # t) = Some (v, CHR ''}'' # t)"
    using single readsE [of v "CHR ''}'' # t"] by auto
  show ?case
    using single m
    by (intro exI [of _ "Suc N"]) (auto elim!: Suc_le_obtain simp: N quote_def unquote_quote)
next
  case (cons m ms)
  obtain k v where m: "m = (k, v)" by (cases m)
  let ?r = "Join (map (\<lambda>(k, v). quote k @ CHR '':'' # print_json v) ms) '','' @ CHR ''}'' # t"
  obtain N where N: "\<And>n. N \<le> n \<Longrightarrow>
      parse_value n (print_json v @ CHR '','' # ?r) = Some (v, CHR '','' # ?r)"
    using cons.prems m readsE [of v "CHR '','' # ?r"] by auto
  obtain M where M: "\<And>n. M \<le> n \<Longrightarrow> parse_members n ?r = Some (ms, t)"
    using cons by auto
  have j: "Join (map (\<lambda>(k, v). quote k @ CHR '':'' # print_json v) (m # ms)) '','' @ CHR ''}'' # t
      = quote_char # quote_body k @ quote_char # CHR '':'' # print_json v @ CHR '','' # ?r"
    using cons.hyps m by (cases ms) (auto simp: quote_def)
  show ?case
    unfolding j using cons.prems m
    by (intro exI [of _ "Suc (max N M)"]) (auto elim!: Suc_le_obtain simp: N M unquote_quote)
qed

lemma print_json_reads: "wf_json v \<Longrightarrow> reads v"
proof (induction v)
  case (JNum x)
  obtain c s where x: "x = c # s" "c = CHR ''-'' \<or> is_digit c"
    using JNum by (auto elim: number_head)
  have sc: "scan_number (x @ t) = Some (x, t)" if "value_end t" for t
    using JNum that scan_number_append [of x x "[]" t] by (simp add: is_number_def)
  show ?case
    unfolding reads_def using sc x digit_head [OF x(2)]
    by (auto intro!: exI [of _ "Suc 0"] elim!: Suc_le_obtain)
next
  case (JStr s)
  then show ?case
    by (auto simp: reads_def quote_def unquote_quote intro!: exI [of _ "Suc 0"] elim!: Suc_le_obtain)
next
  case (JArr vs)
  then have vs: "\<forall>v \<in> set vs. reads v" "\<forall>v \<in> set vs. wf_json v" by (auto simp: list_all_iff)
  show ?case
  proof (cases vs)
    case Nil
    then show ?thesis
      by (auto simp: reads_def intro!: exI [of _ "Suc 0"] elim!: Suc_le_obtain)
  next
    case (Cons v ws)
    obtain c s where c: "print_json v = c # s" "\<not> is_space c" "c \<noteq> CHR '']''"
      using vs(2) Cons by (auto elim: print_head [of v])
    have h: "\<exists>s'. Join (map print_json vs) '','' @ t' = c # s'" for t'
      using Cons c by (cases ws) auto
    show ?thesis
      unfolding reads_def
    proof (intro allI impI)
      fix t
      obtain N where N: "\<And>n. N \<le> n \<Longrightarrow>
          parse_elems n (Join (map print_json vs) '','' @ CHR '']'' # t) = Some (vs, t)"
        using elems_read [of vs t] vs(1) Cons by auto
      obtain s' where s': "Join (map print_json vs) '','' @ CHR '']'' # t = c # s'"
        using h by blast
      show "\<exists>N. \<forall>n \<ge> N. parse_value n (print_json (JArr vs) @ t) = Some (JArr vs, t)"
        using N c by (intro exI [of _ "Suc N"]) (auto elim!: Suc_le_obtain simp: s')
    qed
  qed
next
  case (JObj ms)
  then have ms: "\<forall>(k, v) \<in> set ms. valid_utf8 k \<and> reads v \<and> wf_json v"
    by (fastforce simp: list_all_iff)
  show ?case
  proof (cases ms)
    case Nil
    then show ?thesis
      by (auto simp: reads_def intro!: exI [of _ "Suc 0"] elim!: Suc_le_obtain)
  next
    case (Cons m ws)
    let ?J = "\<lambda>t. Join (map (\<lambda>(k, v). quote k @ CHR '':'' # print_json v) ms) '','' @ t"
    have h: "\<exists>s'. ?J t' = quote_char # s'" for t'
      using Cons by (cases ws; cases m) (auto simp: quote_def)
    show ?thesis
      unfolding reads_def
    proof (intro allI impI)
      fix t
      obtain N where N: "\<And>n. N \<le> n \<Longrightarrow> parse_members n (?J (CHR ''}'' # t)) = Some (ms, t)"
        using members_read [of ms t] ms Cons by auto
      obtain s' where s': "?J (CHR ''}'' # t) = quote_char # s'" using h by blast
      show "\<exists>N. \<forall>n \<ge> N. parse_value n (print_json (JObj ms) @ t) = Some (JObj ms, t)"
        using N by (intro exI [of _ "Suc N"]) (auto elim!: Suc_le_obtain simp: s')
    qed
  qed
qed (auto simp: reads_def HasPrefix_def intro!: exI [of _ "Suc 0"] elim!: Suc_le_obtain)

lemma parse_print_value:
  assumes "wf_json v" and "value_end t"
  shows "parse_value (parse_fuel (print_json v @ t)) (print_json v @ t) = Some (v, t)"
proof -
  let ?s = "print_json v @ t"
  obtain N where N: "\<And>n. N \<le> n \<Longrightarrow> parse_value n ?s = Some (v, t)"
    using readsE [OF print_json_reads [OF assms(1)] assms(2)] by blast
  have "parse_value (parse_fuel ?s) ?s = parse_value (max N (2 * length ?s + 1)) ?s"
    by (rule parse_value_enough [symmetric]) simp
  then show ?thesis using N by simp
qed

lemma parse_doc_print:
  assumes "wf_json v" and "json_depth v \<le> max_depth"
  shows "parse_doc (print_json v) = Some v"
  using parse_print_value [OF assms(1), of "[]"] assms(2) by (simp add: parse_doc_def value_end_def)

lemma parse_first_print:
  assumes "wf_json v" and "json_depth v \<le> max_depth"
  shows "parse_first (print_json v) = Some v"
  using parse_print_value [OF assms(1), of "[]"] assms(2) by (simp add: parse_first_def value_end_def)

section \<open>Decoding into Go values\<close>

text \<open>
  A decoder for a type takes the JSON value and the Go value that is already there, and gives
  the new Go value; \<open>None\<close> is an \<open>UnmarshalTypeError\<close> (Go goes on decoding after
  one and reports it at the end; every caller in the program discards the value then).
  \<open>null\<close> leaves strings, numbers, booleans and structs alone and clears pointers
  and slices.
\<close>

type_synonym 'a decoder = "json \<Rightarrow> 'a \<Rightarrow> 'a option"

definition dec_string :: "string decoder" where
  "dec_string v old = (case v of JStr s \<Rightarrow> Some s | JNull \<Rightarrow> Some old | _ \<Rightarrow> None)"

definition dec_bool :: "bool decoder" where
  "dec_bool v old = (case v of JBool b \<Rightarrow> Some b | JNull \<Rightarrow> Some old | _ \<Rightarrow> None)"

definition dec_int :: "int decoder" where
  "dec_int v old =
     (case v of
        JNum x \<Rightarrow> (if snd (ParseInt x) = None then Some (fst (ParseInt x)) else None)
      | JNull \<Rightarrow> Some old
      | _ \<Rightarrow> None)"

definition dec_ptr :: "'a \<Rightarrow> 'a decoder \<Rightarrow> 'a option decoder" where
  "dec_ptr zero dec v old =
     (if v = JNull then Some None
      else map_option Some (dec v (case old of None \<Rightarrow> zero | Some x \<Rightarrow> x)))"

text \<open>A slice is refilled from index 0; an element that was there already is decoded into.\<close>

fun dec_elems :: "'a \<Rightarrow> 'a decoder \<Rightarrow> json list \<Rightarrow> 'a list \<Rightarrow> 'a list option" where
  "dec_elems zero dec [] old = Some []"
| "dec_elems zero dec (v # vs) old =
     (case dec v (case old of [] \<Rightarrow> zero | x # _ \<Rightarrow> x) of
        None \<Rightarrow> None
      | Some x \<Rightarrow> map_option ((#) x) (dec_elems zero dec vs (tl old)))"

definition dec_list :: "'a \<Rightarrow> 'a decoder \<Rightarrow> 'a list decoder" where
  "dec_list zero dec v old =
     (case v of JArr vs \<Rightarrow> dec_elems zero dec vs old | JNull \<Rightarrow> Some [] | _ \<Rightarrow> None)"

text \<open>Field names match exactly, or else up to case folding; the only code points outside ASCII
  that fold to an ASCII letter are the Kelvin sign and the long s.\<close>

definition upper :: "char \<Rightarrow> char" where
  "upper c = (if 97 \<le> byte_of c \<and> byte_of c \<le> 122 then char_of_byte (byte_of c - 32) else c)"

fun fold_name :: "string \<Rightarrow> string" where
  "fold_name [] = []"
| "fold_name (c # s) =
     (if byte_of c = 226 \<and> map byte_of (take 2 s) = [132, 170] then CHR ''K'' # fold_name (drop 2 s)
      else if byte_of c = 197 \<and> map byte_of (take 1 s) = [191] then CHR ''S'' # fold_name (drop 1 s)
      else upper c # fold_name s)"

definition find_field :: "(string \<times> 'a decoder) list \<Rightarrow> string \<Rightarrow> 'a decoder option" where
  "find_field fs k =
     (case map_of fs k of
        Some d \<Rightarrow> Some d
      | None \<Rightarrow> map_of (map (\<lambda>(n, d). (fold_name n, d)) fs) (fold_name k))"

fun dec_members :: "(string \<times> 'a decoder) list \<Rightarrow> (string \<times> json) list \<Rightarrow> 'a \<Rightarrow> 'a option" where
  "dec_members fs [] x = Some x"
| "dec_members fs ((k, v) # ms) x =
     (case find_field fs k of
        None \<Rightarrow> dec_members fs ms x
      | Some d \<Rightarrow> (case d v x of None \<Rightarrow> None | Some y \<Rightarrow> dec_members fs ms y))"

definition dec_struct :: "(string \<times> 'a decoder) list \<Rightarrow> 'a decoder" where
  "dec_struct fs v x =
     (case v of JObj ms \<Rightarrow> dec_members fs ms x | JNull \<Rightarrow> Some x | _ \<Rightarrow> None)"

text \<open>The decoder of one field of a record, from its selector, its update and the decoder of
  its type.\<close>

definition field :: "('a \<Rightarrow> 'b) \<Rightarrow> (('b \<Rightarrow> 'b) \<Rightarrow> 'a \<Rightarrow> 'a) \<Rightarrow> 'b decoder \<Rightarrow> 'a decoder" where
  "field get upd dec v x = map_option (\<lambda>y. upd (\<lambda>_. y) x) (dec v (get x))"

definition Unmarshal :: "'a decoder \<Rightarrow> 'a \<Rightarrow> bytes \<Rightarrow> 'a option" where
  "Unmarshal dec zero s = (case parse_doc s of None \<Rightarrow> None | Some v \<Rightarrow> dec v zero)"

definition Decode :: "'a decoder \<Rightarrow> 'a \<Rightarrow> bytes \<Rightarrow> 'a option" where
  "Decode dec zero s = (case parse_first s of None \<Rightarrow> None | Some v \<Rightarrow> dec v zero)"

definition Marshal :: "json \<Rightarrow> bytes" where
  "Marshal v = print_json v"

lemma Unmarshal_Marshal:
  "wf_json v \<Longrightarrow> json_depth v \<le> max_depth \<Longrightarrow> Unmarshal dec zero (Marshal v) = dec v zero"
  by (simp add: Unmarshal_def Marshal_def parse_doc_print)

lemma dec_int_Itoa: "in_int64 i \<Longrightarrow> dec_int (JNum (Itoa i)) old = Some i"
  by (simp add: dec_int_def ParseInt_Itoa)

lemma dec_elems_map:
  "(\<And>x. x \<in> set xs \<Longrightarrow> dec (f x) zero = Some (g x)) \<Longrightarrow>
     dec_elems zero dec (map f xs) [] = Some (map g xs)"
  by (induction xs) auto

lemma dec_elems_length: "dec_elems zero dec vs old = Some xs \<Longrightarrow> length xs = length vs"
  by (induction zero dec vs old arbitrary: xs rule: dec_elems.induct) (auto split: option.splits)

end
