(* ===== verification/GoHttp.thy ===== *)
theory GoHttp
  imports LruCache GoJson
begin

text \<open>
  What the program uses of \<open>net/http\<close> and \<open>net/url\<close>: headers, query strings, requests,
  responses and the HTTP client.  The client itself and the network behind it are parameters:
  a \<open>http_client\<close> says, for every outbound request, what \<open>Do\<close> returns and how
  long it took.
\<close>

section \<open>Headers\<close>

text \<open>Keys are in canonical form throughout: the program sets canonical literals, and the keys
  of a received header are canonicalised when it is parsed.\<close>

fun header_add :: "string \<Rightarrow> string \<Rightarrow> header \<Rightarrow> header" where
  "header_add k v [] = [(k, [v])]"
| "header_add k v ((k', vs) # h) = (if k' = k then (k', vs @ [v]) # h else (k', vs) # header_add k v h)"

fun header_set :: "string \<Rightarrow> string \<Rightarrow> header \<Rightarrow> header" where
  "header_set k v [] = [(k, [v])]"
| "header_set k v ((k', vs) # h) = (if k' = k then (k', [v]) # h else (k', vs) # header_set k v h)"

definition header_values :: "header \<Rightarrow> string \<Rightarrow> string list" where
  "header_values h k = (case map_of h k of None \<Rightarrow> [] | Some vs \<Rightarrow> vs)"

text \<open>The nested loop \<open>for k, vs := range h \<dots> w.Header().Add(k, v)\<close>.\<close>

definition add_all :: "header \<Rightarrow> header \<Rightarrow> header" where
  "add_all h w = fold (\<lambda>(k, vs). fold (header_add k) vs) h w"

lemma header_values_add:
  "header_values (header_add k v h) k' = header_values h k' @ (if k' = k then [v] else [])"
  by (induction k v h rule: header_add.induct) (auto simp: header_values_def)

lemma header_values_set:
  "header_values (header_set k v h) k' = (if k' = k then [v] else header_values h k')"
  by (induction k v h rule: header_set.induct) (auto simp: header_values_def)

lemma header_values_add_list:
  "header_values (fold (header_add k) vs h) k' = header_values h k' @ (if k' = k then vs else [])"
  by (induction vs arbitrary: h) (auto simp: header_values_add)

lemma header_values_Cons:
  "k \<notin> fst ` set h \<Longrightarrow>
     header_values ((k, vs) # h) k' = (if k' = k then vs else header_values h k')"
  by (simp add: header_values_def)

lemma header_values_absent: "k \<notin> fst ` set h \<Longrightarrow> header_values h k = []"
  by (auto simp: header_values_def split: option.splits dest: map_of_SomeD)
    (metis fst_conv image_eqI map_of_SomeD)

text \<open>Copying a header (whose keys are distinct, as those of a Go map) appends its values.\<close>

lemma header_values_add_all:
  "distinct (keys_of h) \<Longrightarrow> header_values (add_all h w) k = header_values w k @ header_values h k"
proof (induction h arbitrary: w)
  case Nil
  then show ?case by (simp add: add_all_def header_values_def)
next
  case (Cons p h)
  obtain k' vs where p: "p = (k', vs)" by (cases p)
  have nk: "k' \<notin> fst ` set h" using Cons.prems p by auto
  have "header_values (add_all (p # h) w) k
      = header_values (fold (header_add k') vs w) k @ header_values h k"
    using Cons p by (simp add: add_all_def)
  then show ?case
    using header_values_absent [OF nk] nk by (auto simp: p header_values_add_list header_values_Cons)
qed

section \<open>Query strings\<close>

fun QueryUnescape :: "string \<Rightarrow> string option" where
  "QueryUnescape [] = Some []"
| "QueryUnescape (c # s) =
     (if c = CHR ''%'' then
        (case s of
           a # b # r \<Rightarrow>
             (case (hex_val a, hex_val b) of
                (Some x, Some y) \<Rightarrow>
                  map_option ((#) (char_of_byte (16 * x + y))) (QueryUnescape r)
              | _ \<Rightarrow> None)
         | _ \<Rightarrow> None)
      else map_option ((#) (if c = CHR ''+'' then CHR '' '' else c)) (QueryUnescape s))"

definition Cut :: "char \<Rightarrow> string \<Rightarrow> string \<times> string" where
  "Cut sep s = (takeWhile (\<lambda>c. c \<noteq> sep) s, tl (dropWhile (\<lambda>c. c \<noteq> sep) s))"

definition query_pair :: "string \<Rightarrow> (string \<times> string) option" where
  "query_pair seg =
     (if seg = [] \<or> CHR '';'' \<in> set seg then None
      else case (QueryUnescape (fst (Cut CHR ''='' seg)), QueryUnescape (snd (Cut CHR ''='' seg))) of
        (Some k, Some v) \<Rightarrow> Some (k, v)
      | _ \<Rightarrow> None)"

text \<open>\<open>url.Values\<close> as the list of its pairs; segments that do not parse are dropped.\<close>

definition ParseQuery :: "string \<Rightarrow> (string \<times> string) list" where
  "ParseQuery q = List.map_filter query_pair (Split CHR ''&'' q)"

definition query_get :: "(string \<times> string) list \<Rightarrow> string \<Rightarrow> string" where
  "query_get vs k = (case map_of vs k of None \<Rightarrow> [] | Some v \<Rightarrow> v)"

section \<open>Requests\<close>

record url =
  escaped_path :: string
  raw_query :: string
  force_query :: bool

definition RequestURI :: "url \<Rightarrow> string" where
  "RequestURI u =
     (if escaped_path u = [] then ''/'' else escaped_path u)
   @ (if force_query u \<or> raw_query u \<noteq> [] then CHR ''?'' # raw_query u else [])"

record request =
  Method :: string
  URL :: url
  Pattern :: string  \<comment> \<open>the pattern of the route that matched\<close>
  matches :: "(string \<times> string) list"  \<comment> \<open>the values of its wildcards\<close>
  req_header :: header
  req_body :: bytes

definition PathValue :: "request \<Rightarrow> string \<Rightarrow> string" where
  "PathValue r n = (case map_of (matches r) n of None \<Rightarrow> [] | Some v \<Rightarrow> v)"

definition Query :: "request \<Rightarrow> (string \<times> string) list" where
  "Query r = ParseQuery (raw_query (URL r))"

section \<open>Errors\<close>

text \<open>The errors that occur.  Of an error the program asks for its text, and whether it is a
  \<open>*url.Error\<close> that was a timeout.  The text of a JSON error is not modelled: it is made of
  fixed phrases, field names, one quoted character and number literals.\<close>

datatype go_error =
    UrlError (url_timeout: bool) (url_text: string)
  | ErrorString string
  | NumError string  \<comment> \<open>of \<open>strconv.ParseFloat\<close>, for its input\<close>
  | JsonError

section \<open>The HTTP client\<close>

record outbound =
  ob_method :: string
  ob_url :: string
  ob_header :: header
  ob_body :: bytes

text \<open>A response body is read until its end or until reading fails.\<close>

record http_response =
  StatusCode :: int
  resp_header :: header
  resp_data :: bytes
  resp_fault :: "go_error option"

text \<open>\<open>NewRequest\<close> is the error of \<open>http.NewRequestWithContext\<close> for a method and a
  URL; \<open>Do\<close> gives the result of the exchange and the nanoseconds it took.\<close>

record http_client =
  NewRequest :: "string \<Rightarrow> string \<Rightarrow> go_error option"
  Do :: "outbound \<Rightarrow> (go_error + http_response) \<times> int"

definition ReadAll :: "http_response \<Rightarrow> go_error + bytes" where
  "ReadAll resp = (case resp_fault resp of None \<Rightarrow> Inr (resp_data resp) | Some e \<Rightarrow> Inl e)"

fun composite :: "json \<Rightarrow> bool" where
  "composite (JObj ms) = True"
| "composite (JArr vs) = True"
| "composite _ = False"

text \<open>\<open>json.NewDecoder(resp.Body).Decode\<close>: the first value of the body.  Where reading
  fails, the value counts if it ended before that, which the decoder notices at once for an
  object or an array and otherwise when it has seen the next byte.\<close>

definition Decode_body :: "'a decoder \<Rightarrow> 'a \<Rightarrow> http_response \<Rightarrow> go_error + 'a" where
  "Decode_body dec zero resp =
     (let s = resp_data resp;
          fault = (case resp_fault resp of None \<Rightarrow> JsonError | Some e \<Rightarrow> e)
      in case parse_value (parse_fuel s) s of
           None \<Rightarrow> Inl fault
         | Some (v, rest) \<Rightarrow>
             if resp_fault resp \<noteq> None \<and> rest = [] \<and> \<not> composite v then Inl fault
             else if max_depth < json_depth v then Inl JsonError
             else (case dec v zero of None \<Rightarrow> Inl JsonError | Some x \<Rightarrow> Inr x))"

lemma Decode_body_ok:
  "resp_fault resp = None \<Longrightarrow>
     Decode_body dec zero resp =
       (case Decode dec zero (resp_data resp) of None \<Rightarrow> Inl JsonError | Some x \<Rightarrow> Inr x)"
  by (auto simp: Decode_body_def Decode_def parse_first_def Let_def split: option.splits)

section \<open>Responses of the server\<close>

text \<open>What a handler has written: the status, the header and the body.\<close>

record response =
  status :: int
  resp_headers :: header
  resp_body :: bytes

end
