(* ===== verification/Metrics.thy ===== *)
theory Metrics
  imports GoHttp
begin

text \<open>
  \<open>metrics.go\<close> and the span calls of \<open>proxy.go\<close>: what a handler does to its metrics
  and to the tracer is recorded as a list of events, in the order of the calls.  A counter is
  the number of its events.
\<close>

section \<open>Events\<close>

text \<open>One constructor for each vector of the Metrics struct, with its label values in the
  order they are declared with (upstream, method, path, status or reason), and one for each call
  on a span.\<close>

datatype event =
    UpstreamRequestsTotal string string string string
  | UpstreamRequestDuration string string string int
  | UpstreamErrorsTotal string string string string
  | FallbackResponsesTotal string string
  | SpanStart string
  | SpanRecordError string go_error
  | SpanSetStatusError string
  | SpanEnd string

type_synonym 'a logged = "'a \<times> event list"

fun is_fallback :: "event \<Rightarrow> bool" where
  "is_fallback (FallbackResponsesTotal _ _) = True"
| "is_fallback _ = False"

fun is_upstream_error :: "event \<Rightarrow> bool" where
  "is_upstream_error (UpstreamErrorsTotal _ _ _ _) = True"
| "is_upstream_error _ = False"

fun is_upstream_request :: "event \<Rightarrow> bool" where
  "is_upstream_request (UpstreamRequestsTotal _ _ _ _) = True"
| "is_upstream_request _ = False"

fun is_span_event :: "event \<Rightarrow> bool" where
  "is_span_event (SpanStart _) = True"
| "is_span_event (SpanEnd _) = True"
| "is_span_event _ = False"

definition count_events :: "(event \<Rightarrow> bool) \<Rightarrow> event list \<Rightarrow> nat" where
  "count_events p evs = length (filter p evs)"

lemma count_events_simps [simp, effect_simps]:
  "count_events p [] = 0"
  "count_events p (e # evs) = (if p e then Suc (count_events p evs) else count_events p evs)"
  "count_events p (evs @ evs') = count_events p evs + count_events p evs'"
  by (simp_all add: count_events_def)

text \<open>Spans are nested: every started span is ended, innermost first.\<close>

fun spans_close :: "string list \<Rightarrow> event list \<Rightarrow> bool" where
  "spans_close open_spans [] = (open_spans = [])"
| "spans_close open_spans (SpanStart n # evs) = spans_close (n # open_spans) evs"
| "spans_close open_spans (SpanEnd n # evs) =
     (case open_spans of [] \<Rightarrow> False | m # ms \<Rightarrow> m = n \<and> spans_close ms evs)"
| "spans_close open_spans (_ # evs) = spans_close open_spans evs"

definition spans_balanced :: "event list \<Rightarrow> bool" where
  "spans_balanced evs \<longleftrightarrow> (\<forall>open_spans rest. spans_close open_spans (evs @ rest) = spans_close open_spans rest)"

lemma balanced_Nil [simp]: "spans_balanced []"
  by (simp add: spans_balanced_def)

lemma balanced_append: "spans_balanced a \<Longrightarrow> spans_balanced b \<Longrightarrow> spans_balanced (a @ b)"
  by (simp add: spans_balanced_def)

lemma balanced_span: "spans_balanced evs \<Longrightarrow> spans_balanced (SpanStart n # evs @ [SpanEnd n])"
  by (simp add: spans_balanced_def)

lemma balanced_other: "\<not> is_span_event e \<Longrightarrow> spans_balanced evs \<Longrightarrow> spans_balanced (e # evs)"
  by (cases e) (simp_all add: spans_balanced_def)

lemma balanced_no_spans: "list_all (\<lambda>e. \<not> is_span_event e) evs \<Longrightarrow> spans_balanced evs"
  by (induction evs) (simp_all add: balanced_other)

lemma balanced_closes: "spans_balanced evs \<Longrightarrow> spans_close [] evs"
  unfolding spans_balanced_def by (metis append_Nil2 spans_close.simps(1))

section \<open>Labels\<close>

definition text_reason :: "string \<Rightarrow> string" where
  "text_reason s = (if Contains s ''connection refused'' then ''connection_refused'' else ''unknown'')"

fun errorReason :: "go_error \<Rightarrow> string" where
  "errorReason (UrlError timeout text) = (if timeout then ''timeout'' else text_reason text)"
| "errorReason (ErrorString text) = text_reason text"
| "errorReason (NumError num) = text_reason num"
| "errorReason JsonError = ''unknown''"

definition routePath :: "request \<Rightarrow> string" where
  "routePath r = TrimPrefix (Pattern r) (Method r @ '' '')"

definition httpErrorReason :: "int \<Rightarrow> string" where
  "httpErrorReason code = ''http_'' @ Itoa (if 0 \<le> code then code div 100 else - (- code div 100)) @ ''xx''"

lemma errorReason_range:
  "errorReason e \<in> {''timeout'', ''connection_refused'', ''unknown''}"
  by (cases e) (auto simp: text_reason_def)

lemma httpErrorReason_classes:
  assumes "100 \<le> code" and "code \<le> 599"
  shows "httpErrorReason code \<in>
           {''http_1xx'', ''http_2xx'', ''http_3xx'', ''http_4xx'', ''http_5xx''}"
proof -
  define q where "q = code div 100"
  have "q \<in> {1, 2, 3, 4, 5}" using assms unfolding q_def by (auto simp: div_le_mono)
  moreover have "httpErrorReason code = ''http_'' @ Itoa q @ ''xx''"
    using assms by (simp add: httpErrorReason_def q_def)
  moreover have "Itoa 1 = ''1''" "Itoa 2 = ''2''" "Itoa 3 = ''3''" "Itoa 4 = ''4''" "Itoa 5 = ''5''"
    by code_simp+
  ultimately show ?thesis by auto
qed

end
