(* ===== verification/Expiry.thy ===== *)
theory Expiry
  imports GoTime GoJson
begin

text \<open>
  \<open>expiry.go\<close>: from a response body to the time until which it may be replayed.
\<close>

section \<open>Timestamps\<close>

definition parseTimestamp :: "string \<Rightarrow> time" where
  "parseTimestamp s =
     (if s = [] then zero_time
      else case Parse_RFC3339 s of None \<Rightarrow> zero_time | Some t \<Rightarrow> t)"

definition effectiveTime :: "string \<Rightarrow> string \<Rightarrow> time" where
  "effectiveTime primary fallback =
     (if \<not> IsZero (parseTimestamp primary) then parseTimestamp primary else parseTimestamp fallback)"

definition latestTime :: "time list \<Rightarrow> time" where
  "latestTime ts = foldl (\<lambda>latest t. if After t latest then t else latest) zero_time ts"

section \<open>The parts of the responses that are read\<close>

record whenItem =
  When :: string
  PlannedWhen :: string

record leg =
  Arrival :: string
  PlannedArrival :: string

record journey =
  Legs :: "leg list"

record stopover =
  so_Arrival :: string
  so_PlannedArrival :: string

record trip =
  Stopovers :: "stopover list"

definition zero_whenItem :: whenItem where
  "zero_whenItem = \<lparr>When = [], PlannedWhen = []\<rparr>"

definition zero_leg :: leg where
  "zero_leg = \<lparr>Arrival = [], PlannedArrival = []\<rparr>"

definition zero_journey :: journey where
  "zero_journey = \<lparr>Legs = []\<rparr>"

definition zero_stopover :: stopover where
  "zero_stopover = \<lparr>so_Arrival = [], so_PlannedArrival = []\<rparr>"

definition zero_trip :: trip where
  "zero_trip = \<lparr>Stopovers = []\<rparr>"

definition dec_whenItem :: "whenItem decoder" where
  "dec_whenItem = dec_struct
     [(''when'', field When When_update dec_string),
      (''plannedWhen'', field PlannedWhen PlannedWhen_update dec_string)]"

definition dec_leg :: "leg decoder" where
  "dec_leg = dec_struct
     [(''arrival'', field Arrival Arrival_update dec_string),
      (''plannedArrival'', field PlannedArrival PlannedArrival_update dec_string)]"

definition dec_journey :: "journey decoder" where
  "dec_journey = dec_struct [(''legs'', field Legs Legs_update (dec_list zero_leg dec_leg))]"

definition dec_stopover :: "stopover decoder" where
  "dec_stopover = dec_struct
     [(''arrival'', field so_Arrival so_Arrival_update dec_string),
      (''plannedArrival'', field so_PlannedArrival so_PlannedArrival_update dec_string)]"

definition dec_trip :: "trip decoder" where
  "dec_trip = dec_struct
     [(''stopovers'', field Stopovers Stopovers_update (dec_list zero_stopover dec_stopover))]"

section \<open>The expiry functions, one per route\<close>

definition departuresExpiry :: "bytes \<Rightarrow> time" where
  "departuresExpiry body =
     (case Unmarshal (dec_struct [(''departures'', dec_list zero_whenItem dec_whenItem)]) [] body of
        None \<Rightarrow> zero_time
      | Some departures \<Rightarrow>
          if departures = [] then zero_time
          else latestTime (map (\<lambda>d. effectiveTime (When d) (PlannedWhen d)) departures))"

definition arrivalsExpiry :: "bytes \<Rightarrow> time" where
  "arrivalsExpiry body =
     (case Unmarshal (dec_struct [(''arrivals'', dec_list zero_whenItem dec_whenItem)]) [] body of
        None \<Rightarrow> zero_time
      | Some arrivals \<Rightarrow>
          if arrivals = [] then zero_time
          else latestTime (map (\<lambda>a. effectiveTime (When a) (PlannedWhen a)) arrivals))"

definition journeysExpiry :: "bytes \<Rightarrow> time" where
  "journeysExpiry body =
     (case Unmarshal (dec_struct [(''journeys'', dec_list zero_journey dec_journey)]) [] body of
        None \<Rightarrow> zero_time
      | Some journeys \<Rightarrow>
          if journeys = [] then zero_time
          else latestTime (concat (map (\<lambda>j. map (\<lambda>l. effectiveTime (Arrival l) (PlannedArrival l)) (Legs j)) journeys)))"

definition refreshJourneyExpiry :: "bytes \<Rightarrow> time" where
  "refreshJourneyExpiry body =
     (case Unmarshal (dec_struct [(''journey'', dec_journey)]) zero_journey body of
        None \<Rightarrow> zero_time
      | Some j \<Rightarrow>
          if Legs j = [] then zero_time
          else latestTime (map (\<lambda>l. effectiveTime (Arrival l) (PlannedArrival l)) (Legs j)))"

definition tripsExpiry :: "bytes \<Rightarrow> time" where
  "tripsExpiry body =
     (case Unmarshal (dec_struct [(''trips'', dec_list zero_trip dec_trip)]) [] body of
        None \<Rightarrow> zero_time
      | Some trips \<Rightarrow>
          if trips = [] then zero_time
          else latestTime (concat (map (\<lambda>tr. map (\<lambda>s. effectiveTime (so_Arrival s) (so_PlannedArrival s)) (Stopovers tr)) trips)))"

definition tripExpiry :: "bytes \<Rightarrow> time" where
  "tripExpiry body =
     (case Unmarshal (dec_struct [(''trip'', dec_trip)]) zero_trip body of
        None \<Rightarrow> zero_time
      | Some tr \<Rightarrow>
          if Stopovers tr = [] then zero_time
          else latestTime (map (\<lambda>s. effectiveTime (so_Arrival s) (so_PlannedArrival s)) (Stopovers tr)))"

definition reachableFromExpiry :: "bytes \<Rightarrow> time" where
  "reachableFromExpiry body =
     (case Unmarshal (dec_struct [(''reachable'', dec_list zero_whenItem dec_whenItem)]) [] body of
        None \<Rightarrow> zero_time
      | Some reachable \<Rightarrow>
          if reachable = [] then zero_time
          else latestTime (map (\<lambda>r. effectiveTime (When r) (PlannedWhen r)) reachable))"

section \<open>The latest time\<close>

lemma foldl_latest:
  "let m = foldl (\<lambda>latest t. if After t latest then t else latest) a ts
   in (m = a \<or> m \<in> set ts \<and> After m a) \<and> \<not> After a m \<and> (\<forall>t \<in> set ts. \<not> After t m)"
proof (induction ts arbitrary: a)
  case (Cons t ts)
  let ?b = "if After t a then t else a"
  show ?case
    using Cons.IH [of ?b] by (auto simp: Let_def After_def split: if_splits)
qed simp

lemma latestTime_upper: "t \<in> set ts \<Longrightarrow> \<not> After t (latestTime ts)"
  using foldl_latest [of zero_time ts] by (simp add: latestTime_def Let_def)

lemma latestTime_cases: "latestTime ts = zero_time \<or> latestTime ts \<in> set ts \<and> \<not> IsZero (latestTime ts)"
  using foldl_latest [of zero_time ts]
  by (auto simp: latestTime_def Let_def After_def IsZero_def zero_time_def)

lemma latestTime_mem: "\<not> IsZero (latestTime ts) \<Longrightarrow> latestTime ts \<in> set ts"
  using latestTime_cases [of ts] by auto

lemma latestTime_not_before_zero: "\<not> After zero_time (latestTime ts)"
  using foldl_latest [of zero_time ts] by (simp add: latestTime_def Let_def)

lemma latestTime_zero_iff:
  "IsZero (latestTime ts) \<longleftrightarrow> (\<forall>t \<in> set ts. \<not> After t zero_time)"
proof
  assume "IsZero (latestTime ts)"
  then show "\<forall>t \<in> set ts. \<not> After t zero_time"
    using latestTime_upper [of _ ts] by (auto simp: IsZero_def After_def zero_time_def)
next
  assume "\<forall>t \<in> set ts. \<not> After t zero_time"
  then show "IsZero (latestTime ts)"
    using foldl_latest [of zero_time ts] by (auto simp: latestTime_def Let_def)
qed

lemma latestTime_future: "After (latestTime ts) now \<longleftrightarrow> (\<exists>t \<in> set ts. After t now \<and> After t zero_time) \<or> After zero_time now"
  using latestTime_cases [of ts] latestTime_upper [of _ ts] latestTime_not_before_zero [of ts]
  by (fastforce simp: After_def zero_time_def IsZero_def)

lemma latestTime_after_iff:
  "\<not> After zero_time now \<Longrightarrow> After (latestTime ts) now \<longleftrightarrow> (\<exists>t \<in> set ts. After t now)"
  by (auto simp: latestTime_future) (auto simp: After_def)

lemma latestTime_Nil [simp]: "latestTime [] = zero_time"
  by (simp add: latestTime_def)

section \<open>The contract that the seven expiry functions share\<close>

text \<open>
  An expiry function collects times from the body (or fails to read it) and takes the latest.
  What the handlers need of it follows from that alone: an unreadable body, and one without any
  time, is never cached, and a cached body is not replayed after its last time.
\<close>

locale expiry_function =
  fixes expiry :: "bytes \<Rightarrow> time"
    and times_in :: "bytes \<Rightarrow> time list option"
  assumes expiry_eq: "expiry b = (case times_in b of None \<Rightarrow> zero_time | Some ts \<Rightarrow> latestTime ts)"
begin

lemma unreadable: "times_in b = None \<Longrightarrow> expiry b = zero_time"
  by (simp add: expiry_eq)

lemma no_times: "times_in b = Some [] \<Longrightarrow> expiry b = zero_time"
  by (simp add: expiry_eq)

lemma is_latest:
  "times_in b = Some ts \<Longrightarrow> t \<in> set ts \<Longrightarrow> \<not> After t (expiry b)"
  by (simp add: expiry_eq latestTime_upper)

lemma is_one_of:
  "\<not> IsZero (expiry b) \<Longrightarrow> \<exists>ts. times_in b = Some ts \<and> expiry b \<in> set ts"
  using latestTime_mem by (auto simp: expiry_eq split: option.splits)

lemma future_iff:
  "\<not> After zero_time now \<Longrightarrow>
     After (expiry b) now \<longleftrightarrow> (\<exists>ts t. times_in b = Some ts \<and> t \<in> set ts \<and> After t now)"
  by (auto simp: expiry_eq latestTime_after_iff split: option.splits)

end

definition when_times :: "whenItem list \<Rightarrow> time list" where
  "when_times = map (\<lambda>d. effectiveTime (When d) (PlannedWhen d))"

definition leg_times :: "journey \<Rightarrow> time list" where
  "leg_times j = map (\<lambda>l. effectiveTime (Arrival l) (PlannedArrival l)) (Legs j)"

definition stopover_times :: "trip \<Rightarrow> time list" where
  "stopover_times t = map (\<lambda>s. effectiveTime (so_Arrival s) (so_PlannedArrival s)) (Stopovers t)"

definition items_times :: "string \<Rightarrow> bytes \<Rightarrow> time list option" where
  "items_times name b =
     map_option when_times (Unmarshal (dec_struct [(name, dec_list zero_whenItem dec_whenItem)]) [] b)"

definition journeys_times :: "bytes \<Rightarrow> time list option" where
  "journeys_times b = map_option (\<lambda>js. concat (map leg_times js))
     (Unmarshal (dec_struct [(''journeys'', dec_list zero_journey dec_journey)]) [] b)"

definition journey_times :: "bytes \<Rightarrow> time list option" where
  "journey_times b = map_option leg_times
     (Unmarshal (dec_struct [(''journey'', dec_journey)]) zero_journey b)"

definition trips_times :: "bytes \<Rightarrow> time list option" where
  "trips_times b = map_option (\<lambda>ts. concat (map stopover_times ts))
     (Unmarshal (dec_struct [(''trips'', dec_list zero_trip dec_trip)]) [] b)"

definition trip_times :: "bytes \<Rightarrow> time list option" where
  "trip_times b = map_option stopover_times
     (Unmarshal (dec_struct [(''trip'', dec_trip)]) zero_trip b)"

lemmas times_defs = when_times_def leg_times_def [abs_def] stopover_times_def [abs_def]

interpretation departures: expiry_function departuresExpiry "items_times ''departures''"
  by unfold_locales (simp add: departuresExpiry_def items_times_def times_defs split: option.splits)

interpretation arrivals: expiry_function arrivalsExpiry "items_times ''arrivals''"
  by unfold_locales (simp add: arrivalsExpiry_def items_times_def times_defs split: option.splits)

interpretation reachable: expiry_function reachableFromExpiry "items_times ''reachable''"
  by unfold_locales (simp add: reachableFromExpiry_def items_times_def times_defs split: option.splits)

interpretation journeys: expiry_function journeysExpiry journeys_times
  by unfold_locales
    (simp add: journeysExpiry_def journeys_times_def times_defs split: option.splits)

interpretation journey: expiry_function refreshJourneyExpiry journey_times
  by unfold_locales
    (simp add: refreshJourneyExpiry_def journey_times_def times_defs split: option.splits)

interpretation trips: expiry_function tripsExpiry trips_times
  by unfold_locales (simp add: tripsExpiry_def trips_times_def times_defs split: option.splits)

interpretation trip: expiry_function tripExpiry trip_times
  by unfold_locales (simp add: tripExpiry_def trip_times_def times_defs split: option.splits)

section \<open>Properties of the expiry functions\<close>

datatype dynamic_route =
  Departures_route | Arrivals_route | Reachable_route | Journeys_route | Journey_route
  | Trips_route | Trip_route

fun expiry_of :: "dynamic_route \<Rightarrow> bytes \<Rightarrow> time" where
  "expiry_of Departures_route = departuresExpiry"
| "expiry_of Arrivals_route = arrivalsExpiry"
| "expiry_of Reachable_route = reachableFromExpiry"
| "expiry_of Journeys_route = journeysExpiry"
| "expiry_of Journey_route = refreshJourneyExpiry"
| "expiry_of Trips_route = tripsExpiry"
| "expiry_of Trip_route = tripExpiry"

text \<open>The times that a body of the route mentions, \<open>None\<close> if it does not decode.\<close>

fun times_of :: "dynamic_route \<Rightarrow> bytes \<Rightarrow> time list option" where
  "times_of Departures_route = items_times ''departures''"
| "times_of Arrivals_route = items_times ''arrivals''"
| "times_of Reachable_route = items_times ''reachable''"
| "times_of Journeys_route = journeys_times"
| "times_of Journey_route = journey_times"
| "times_of Trips_route = trips_times"
| "times_of Trip_route = trip_times"

interpretation route: expiry_function "expiry_of R" "times_of R" for R
  by (cases R; simp add: departures.expiry_function_axioms arrivals.expiry_function_axioms
      reachable.expiry_function_axioms journeys.expiry_function_axioms
      journey.expiry_function_axioms trips.expiry_function_axioms trip.expiry_function_axioms)

text \<open>C35. On each of the seven dynamic routes, a body that does not decode is not cached (the
  expiry is the zero time); for one that does, the expiry is one of its departure or arrival
  times, or zero, and none of these times is later.\<close>

theorem expiry_is_latest:
  "case times_of R b of
     None \<Rightarrow> expiry_of R b = zero_time
   | Some ts \<Rightarrow> (\<forall>t \<in> set ts. \<not> After t (expiry_of R b))
               \<and> (expiry_of R b = zero_time \<or> expiry_of R b \<in> set ts)"
  using latestTime_upper latestTime_cases by (auto simp: route.expiry_eq split: option.splits)

definition sample_departures :: bytes where
  "sample_departures =
     ''{\"departures\":[{\"when\":null,\"plannedWhen\":\"2024-06-01T11:00:00+02:00\"},{\"when\":\"2024-06-01T10:00:00+02:00\"}]}''"

lemma sample_departures_times:
  "times_of Departures_route sample_departures =
     Some [\<lparr>t_inst = Instant 63852829200 0, t_off = 7200\<rparr>,
           \<lparr>t_inst = Instant 63852825600 0, t_off = 7200\<rparr>]"
  by code_simp

theorem expiry_is_latest_witness:
  "\<not> After \<lparr>t_inst = Instant 63852829200 0, t_off = 7200\<rparr> (departuresExpiry sample_departures)
   \<and> \<not> After \<lparr>t_inst = Instant 63852825600 0, t_off = 7200\<rparr> (departuresExpiry sample_departures)"
  using expiry_is_latest [of Departures_route sample_departures]
  by (simp add: sample_departures_times [unfolded times_of.simps])

text \<open>A dynamic answer is worth storing at a time exactly if the body mentions a departure or
  arrival after that time.\<close>

theorem future_expiry_iff:
  assumes "\<not> After zero_time now"
  shows "After (expiry_of R b) now \<longleftrightarrow> (\<exists>ts t. times_of R b = Some ts \<and> t \<in> set ts \<and> After t now)"
  by (rule route.future_iff [OF assms])

theorem future_expiry_iff_witness:
  "After (expiry_of Departures_route sample_departures) zero_time \<longleftrightarrow>
     (\<exists>ts t. times_of Departures_route sample_departures = Some ts \<and> t \<in> set ts \<and> After t zero_time)"
  by (rule future_expiry_iff) simp

text \<open>A cancelled or unpredicted item counts with its planned time: without a usable first
  timestamp the second is taken, and a usable first one wins.\<close>

theorem effectiveTime_choice:
  "effectiveTime a b = (case Parse_RFC3339 a of
      Some t \<Rightarrow> if IsZero t then parseTimestamp b else t
    | None \<Rightarrow> parseTimestamp b)"
  by (cases "a = []") (auto simp: effectiveTime_def parseTimestamp_def Parse_RFC3339_def
      get_year_def split: option.splits)

end
