(* ===== verification/Proxy.thy ===== *)
theory Proxy
  imports Metrics Expiry
begin

text \<open>
  \<open>proxy.go\<close>: forwarding to the upstream, the provider chain with its spans, the standard
  handler with its stale-if-error cache, and the passthrough handler.  A handler is a function of
  the clock, the request and the cache; it gives the response, the cache it leaves and the events
  it caused.  The \<open>ResponseWriter\<close> is the header written so far.
\<close>

section \<open>The upstream\<close>

type_synonym fetch_result = "bytes option \<times> header \<times> go_error option"

record DataProvider =
  Name :: string
  Fetch :: "request \<Rightarrow> fetch_result logged"

definition forward :: "http_client \<Rightarrow> string \<Rightarrow> request \<Rightarrow> (go_error + http_response) \<times> int" where
  "forward client upstream r =
     (let u = upstream @ RequestURI (URL r)
      in case NewRequest client (Method r) u of
           Some err \<Rightarrow> (Inl err, 0)
         | None \<Rightarrow> Do client \<lparr>ob_method = Method r, ob_url = u, ob_header = req_header r,
                               ob_body = req_body r\<rparr>)"

definition upstream_events :: "string \<Rightarrow> string \<Rightarrow> string \<Rightarrow> int \<Rightarrow> string \<Rightarrow> event list" where
  "upstream_events upstream meth path duration code =
     [UpstreamRequestDuration upstream meth path duration,
      UpstreamRequestsTotal upstream meth path code]"

definition status_error :: "int \<Rightarrow> go_error" where
  "status_error code = ErrorString (''upstream returned status '' @ Itoa code)"

definition Forward :: "http_client \<Rightarrow> string \<Rightarrow> request \<Rightarrow> fetch_result logged" where
  "Forward client upstream r =
     (let path = routePath r
      in case forward client upstream r of
           (Inl err, _) \<Rightarrow>
             ((None, [], Some err),
              [UpstreamErrorsTotal ''transport_rest'' (Method r) path (errorReason err)])
         | (Inr resp, duration) \<Rightarrow>
             (let evs = upstream_events ''transport_rest'' (Method r) path duration
                          (Itoa (StatusCode resp))
              in if StatusCode resp < 200 \<or> StatusCode resp \<ge> 300
                 then ((None, [], Some (status_error (StatusCode resp))),
                       evs @ [UpstreamErrorsTotal ''transport_rest'' (Method r) path
                                (httpErrorReason (StatusCode resp))])
                 else case ReadAll resp of
                        Inl err \<Rightarrow> ((None, [], Some err), evs)
                      | Inr data \<Rightarrow> ((Some data, resp_header resp, None), evs)))"

section \<open>Spans around providers\<close>

definition span_error :: "string \<Rightarrow> go_error option \<Rightarrow> event list" where
  "span_error n err =
     (case err of None \<Rightarrow> [] | Some e \<Rightarrow> [SpanRecordError n e, SpanSetStatusError n])"

definition callProvider :: "DataProvider \<Rightarrow> request \<Rightarrow> fetch_result logged" where
  "callProvider p r =
     (let span = ''provider.'' @ Name p;
          ((data, hdr, err), evs) = Fetch p r
      in ((data, hdr, err), SpanStart span # evs @ span_error span err @ [SpanEnd span]))"

definition callProviderRaw :: "string \<Rightarrow> ('a \<times> go_error option) logged \<Rightarrow> ('a \<times> go_error option) logged" where
  "callProviderRaw name fn =
     (let span = ''provider.'' @ name;
          ((x, err), evs) = fn
      in ((x, err), SpanStart span # evs @ span_error span err @ [SpanEnd span]))"

section \<open>Writing responses\<close>

definition copyUpstreamResponse :: "header \<Rightarrow> http_response \<Rightarrow> response" where
  "copyUpstreamResponse w resp =
     \<lparr>status = StatusCode resp, resp_headers = add_all (resp_header resp) w,
      resp_body = resp_data resp\<rparr>"

definition writeEmptyJSON :: "header \<Rightarrow> bytes \<Rightarrow> response" where
  "writeEmptyJSON w data =
     \<lparr>status = 200, resp_headers = header_set ''Content-Type'' ''application/json'' w,
      resp_body = data\<rparr>"

definition writeFromCache :: "header \<Rightarrow> cache_entry \<Rightarrow> response" where
  "writeFromCache w entry =
     \<lparr>status = statusCode entry,
      resp_headers = add_all (header entry) (header_set ''X-Cache'' ''HIT'' w),
      resp_body = body entry\<rparr>"

section \<open>Handlers\<close>

type_synonym handler = "time \<Rightarrow> request \<Rightarrow> cache \<Rightarrow> (response \<times> cache) logged"

definition serveFallback :: "bytes \<Rightarrow> string \<Rightarrow> handler" where
  "serveFallback emptyBody key now r c =
     (let (found, c') = Cache_Get now key c
      in case found of
           Some entry \<Rightarrow> ((writeFromCache [] entry, c'), [SpanStart ''fallback'', SpanEnd ''fallback''])
         | None \<Rightarrow>
             ((writeEmptyJSON (header_set ''X-Cache'' ''MISS'' []) emptyBody, c'),
              [SpanStart ''fallback'', FallbackResponsesTotal (Method r) (routePath r),
               SpanEnd ''fallback'']))"

text \<open>The provider loop: the first provider without an error wins; after the last failure body
  and header are nil.\<close>

fun try_providers :: "DataProvider list \<Rightarrow> request \<Rightarrow> (bytes option \<times> header) logged" where
  "try_providers [] r = ((None, []), [])"
| "try_providers (p # ps) r =
     (let ((data, hdr, err), evs) = callProvider p r
      in if err = None then ((data, hdr), evs)
         else (let (res, evs') = try_providers ps r in (res, evs @ evs')))"

definition newStandardHandler ::
  "DataProvider list \<Rightarrow> bytes \<Rightarrow> (bytes \<Rightarrow> time) option \<Rightarrow> handler" where
  "newStandardHandler providers emptyBody expiry now r c =
     (let key = RequestURI (URL r);
          ((data, hdr), evs) = try_providers providers r
      in case data of
           None \<Rightarrow> (let (res, evs') = serveFallback emptyBody key now r c in (res, evs @ evs'))
         | Some b \<Rightarrow>
             (let expiresAt = (case expiry of None \<Rightarrow> zero_time | Some f \<Rightarrow> f b);
                  c' = (if expiry = None \<or> (\<not> IsZero expiresAt \<and> After expiresAt now)
                        then Cache_Set key
                               \<lparr>statusCode = 200, header = hdr, body = b, expiresAt = expiresAt\<rparr> c
                        else c)
              in ((\<lparr>status = 200, resp_headers = add_all hdr [], resp_body = b\<rparr>, c'), evs)))"

definition newPassthroughHandler :: "http_client \<Rightarrow> string \<Rightarrow> bytes \<Rightarrow> request \<Rightarrow> response logged" where
  "newPassthroughHandler client upstream emptyBody r =
     (let path = routePath r
      in case forward client upstream r of
           (Inl err, _) \<Rightarrow>
             (writeEmptyJSON [] emptyBody,
              [UpstreamErrorsTotal ''transport_rest'' (Method r) path (errorReason err),
               FallbackResponsesTotal (Method r) path])
         | (Inr resp, duration) \<Rightarrow>
             (let evs = upstream_events ''transport_rest'' (Method r) path duration
                          (Itoa (StatusCode resp))
              in if StatusCode resp < 200 \<or> StatusCode resp \<ge> 300
                 then (writeEmptyJSON [] emptyBody,
                       evs @ [UpstreamErrorsTotal ''transport_rest'' (Method r) path
                                (httpErrorReason (StatusCode resp)),
                              FallbackResponsesTotal (Method r) path])
                 else (copyUpstreamResponse [] resp, evs)))"

section \<open>What a data provider promises\<close>

text \<open>
  The interface between the handlers and a data provider: a body comes with the absence of an
  error, and the events of a fetch are its own metrics only; spans and fallbacks are the
  handlers' business.
\<close>

definition own_event :: "event \<Rightarrow> bool" where
  "own_event e \<longleftrightarrow> \<not> is_span_event e \<and> \<not> is_fallback e"

locale data_provider =
  fixes fetch :: "request \<Rightarrow> fetch_result logged"
  assumes body_iff: "fst (fst (fetch r)) \<noteq> None \<longleftrightarrow> snd (snd (fst (fetch r))) = None"
    and own_events: "list_all own_event (snd (fetch r))"
begin

lemma fetch_cases:
  obtains (ok) b h evs where "fetch r = ((Some b, h, None), evs)" "list_all own_event evs"
  | (failed) h e evs where "fetch r = ((None, h, Some e), evs)" "list_all own_event evs"
proof -
  obtain d h err evs where f: "fetch r = ((d, h, err), evs)" by (metis surj_pair)
  have "d \<noteq> None \<longleftrightarrow> err = None" and "list_all own_event evs"
    using body_iff [of r] own_events [of r] by (simp_all add: f)
  then show ?thesis using ok failed f by (cases d; cases err) auto
qed

lemma no_fallback_events: "count_events is_fallback (snd (fetch r)) = 0"
  using own_events [of r] by (simp add: count_events_def own_event_def list_all_iff)

lemma fetch_balanced: "spans_balanced (snd (fetch r))"
  using own_events [of r] by (intro balanced_no_spans) (auto simp: own_event_def list_all_iff)

end

lemma upstream_events_own [simp]: "list_all own_event (upstream_events u m p d s)"
  by (simp add: upstream_events_def own_event_def)

lemma own_event_simps [simp]:
  "own_event (UpstreamErrorsTotal a b c d)" "own_event (UpstreamRequestsTotal a b c d)"
  "own_event (UpstreamRequestDuration a b c i)"
  by (simp_all add: own_event_def)

interpretation rest: data_provider "Forward client upstream" for client upstream
  by unfold_locales
    (auto simp: Forward_def Let_def split: prod.splits sum.splits)

abbreviation providers_ok :: "DataProvider list \<Rightarrow> bool" where
  "providers_ok ps \<equiv> list_all (\<lambda>p. data_provider (Fetch p)) ps"

section \<open>The provider chain\<close>

definition provider_fails :: "request \<Rightarrow> DataProvider \<Rightarrow> bool" where
  "provider_fails r p \<longleftrightarrow> snd (snd (fst (Fetch p r))) \<noteq> None"

definition chain_events :: "DataProvider list \<Rightarrow> request \<Rightarrow> event list" where
  "chain_events ps r = concat (map (\<lambda>p. snd (callProvider p r)) ps)"

lemma callProvider_result: "fst (callProvider p r) = fst (Fetch p r)"
  by (simp add: callProvider_def Let_def split: prod.splits)

lemma callProvider_events:
  "snd (callProvider p r) =
     SpanStart (''provider.'' @ Name p) # snd (Fetch p r)
     @ span_error (''provider.'' @ Name p) (snd (snd (fst (Fetch p r))))
     @ [SpanEnd (''provider.'' @ Name p)]"
  by (simp add: callProvider_def Let_def split: prod.splits)

lemma try_providers_all_fail:
  "list_all (provider_fails r) ps \<Longrightarrow> try_providers ps r = ((None, []), chain_events ps r)"
proof (induction ps)
  case (Cons p ps)
  obtain d h e where "fst (Fetch p r) = (d, h, Some e)"
    using Cons.prems by (cases "fst (Fetch p r)") (auto simp: provider_fails_def)
  then obtain evs where "callProvider p r = ((d, h, Some e), evs)"
    using callProvider_result [of p r] by (cases "callProvider p r") auto
  with Cons show ?case by (simp add: chain_events_def)
qed (simp add: chain_events_def)

lemma try_providers_first:
  assumes "list_all (provider_fails r) ps" and "fst (Fetch p r) = (d, h, None)"
  shows "try_providers (ps @ p # qs) r = ((d, h), chain_events (ps @ [p]) r)"
  using assms(1)
proof (induction ps)
  case Nil
  then show ?case
    using callProvider_result [of p r] assms(2) by (auto simp: chain_events_def split: prod.splits)
next
  case (Cons q ps)
  obtain d h e where "fst (Fetch q r) = (d, h, Some e)"
    using Cons.prems by (cases "fst (Fetch q r)") (auto simp: provider_fails_def)
  then obtain evs where "callProvider q r = ((d, h, Some e), evs)"
    using callProvider_result [of q r] by (cases "callProvider q r") auto
  with Cons show ?case by (simp add: chain_events_def)
qed

text \<open>Every chain either fails as a whole or has a first success.\<close>

lemma chain_cases:
  obtains (fail) "list_all (provider_fails r) ps"
  | (first) qs p rs d h where "ps = qs @ p # rs" "list_all (provider_fails r) qs"
      "fst (Fetch p r) = (d, h, None)"
proof (cases "list_all (provider_fails r) ps")
  case False
  then have "\<exists>p \<in> set ps. \<not> provider_fails r p" by (simp add: list_all_iff)
  from split_list_first_prop [OF this]
  obtain qs p rs where "ps = qs @ p # rs" "\<not> provider_fails r p" "\<forall>q \<in> set qs. provider_fails r q"
    by auto
  then show ?thesis
    using first [of qs p rs] by (cases "fst (Fetch p r)") (auto simp: provider_fails_def list_all_iff)
qed (rule fail)

lemma callProvider_balanced:
  assumes "data_provider (Fetch p)"
  shows "spans_balanced (snd (callProvider p r))"
proof -
  have "spans_balanced (snd (Fetch p r) @ span_error n err)" for n err
    by (intro balanced_append data_provider.fetch_balanced [OF assms] balanced_no_spans)
      (auto simp: span_error_def split: option.splits)
  from balanced_span [OF this] show ?thesis by (simp add: callProvider_events)
qed

lemma callProvider_no_fallback:
  assumes "data_provider (Fetch p)"
  shows "count_events is_fallback (snd (callProvider p r)) = 0"
  using data_provider.no_fallback_events [OF assms, of r]
  by (auto simp: callProvider_events span_error_def split: option.splits)

lemma chain_events_simps [simp]:
  "chain_events [] r = []"
  "chain_events (p # ps) r = snd (callProvider p r) @ chain_events ps r"
  "chain_events (ps @ qs) r = chain_events ps r @ chain_events qs r"
  by (simp_all add: chain_events_def)

lemma chain_balanced: "providers_ok ps \<Longrightarrow> spans_balanced (chain_events ps r)"
  by (induction ps) (auto intro: balanced_append callProvider_balanced)

lemma chain_no_fallback: "providers_ok ps \<Longrightarrow> count_events is_fallback (chain_events ps r) = 0"
  by (induction ps) (auto simp: callProvider_no_fallback)

section \<open>The fallback\<close>

lemma serveFallback_hit:
  assumes "cache_inv c" and "map_of (abs_cache c) key = Some e" and "\<not> expired now e"
  shows "serveFallback eb key now r c =
           ((writeFromCache [] e, snd (Cache_Get now key c)),
            [SpanStart ''fallback'', SpanEnd ''fallback''])"
  using lru.get_result [OF assms(1), of now key] assms(2,3)
  by (cases "Cache_Get now key c") (simp add: serveFallback_def)

lemma serveFallback_miss:
  assumes "cache_inv c" and "\<And>e. map_of (abs_cache c) key = Some e \<Longrightarrow> expired now e"
  shows "serveFallback eb key now r c =
           ((writeEmptyJSON (header_set ''X-Cache'' ''MISS'' []) eb, snd (Cache_Get now key c)),
            [SpanStart ''fallback'', FallbackResponsesTotal (Method r) (routePath r),
             SpanEnd ''fallback''])"
proof -
  have "fst (Cache_Get now key c) = None"
    using lru.get_result [OF assms(1), of now key] assms(2) by (auto split: option.splits)
  then show ?thesis by (cases "Cache_Get now key c") (simp add: serveFallback_def)
qed

lemma serveFallback_cache: "snd (fst (serveFallback eb key now r c)) = snd (Cache_Get now key c)"
  by (simp add: serveFallback_def split: prod.splits option.splits)

lemma serveFallback_balanced: "spans_balanced (snd (serveFallback eb key now r c))"
  by (auto simp: serveFallback_def spans_balanced_def split: prod.splits option.splits)

lemma writeFromCache_hit: "''HIT'' \<in> set (header_values (resp_headers (writeFromCache [] e)) ''X-Cache'')"
  if "distinct (keys_of (header e))"
  using that by (simp add: writeFromCache_def header_values_add_all) (simp add: header_values_def)

section \<open>The standard handler\<close>

lemma standard_fallback [handler_simps]:
  assumes "list_all (provider_fails r) ps"
  shows "newStandardHandler ps eb f now r c =
    (fst (serveFallback eb (RequestURI (URL r)) now r c),
     chain_events ps r @ snd (serveFallback eb (RequestURI (URL r)) now r c))"
  by (simp add: newStandardHandler_def try_providers_all_fail [OF assms] split: prod.splits)

definition entry_for :: "(bytes \<Rightarrow> time) option \<Rightarrow> header \<Rightarrow> bytes \<Rightarrow> cache_entry" where
  "entry_for f h b = \<lparr>statusCode = 200, header = h, body = b,
     expiresAt = (case f of None \<Rightarrow> zero_time | Some g \<Rightarrow> g b)\<rparr>"

definition cacheable :: "(bytes \<Rightarrow> time) option \<Rightarrow> time \<Rightarrow> bytes \<Rightarrow> bool" where
  "cacheable f now b \<longleftrightarrow>
     (case f of None \<Rightarrow> True | Some g \<Rightarrow> \<not> IsZero (g b) \<and> After (g b) now)"

lemma standard_success [handler_simps]:
  assumes "list_all (provider_fails r) ps" and "fst (Fetch p r) = (Some b, h, None)"
  shows "newStandardHandler (ps @ p # qs) eb f now r c =
    ((\<lparr>status = 200, resp_headers = add_all h [], resp_body = b\<rparr>,
      if cacheable f now b then Cache_Set (RequestURI (URL r)) (entry_for f h b) c else c),
     chain_events (ps @ [p]) r)"
  by (cases f)
    (simp_all add: newStandardHandler_def try_providers_first [OF assms] entry_for_def cacheable_def Let_def)

lemma cacheable_fresh: "cacheable f now b \<Longrightarrow> \<not> expired now (entry_for f h b)"
  by (auto simp: cacheable_def entry_for_def expired_def After_def split: option.splits)

text \<open>The two ways a request can go, for well-behaved providers.\<close>

lemma standard_cases:
  assumes ok: "providers_ok ps"
  obtains (fallback) "list_all (provider_fails r) ps"
      "newStandardHandler ps eb f now r c =
        (fst (serveFallback eb (RequestURI (URL r)) now r c),
         chain_events ps r @ snd (serveFallback eb (RequestURI (URL r)) now r c))"
  | (served) qs p rs b h where "ps = qs @ p # rs" "list_all (provider_fails r) qs"
      "fst (Fetch p r) = (Some b, h, None)"
      "newStandardHandler ps eb f now r c =
        ((\<lparr>status = 200, resp_headers = add_all h [], resp_body = b\<rparr>,
          if cacheable f now b then Cache_Set (RequestURI (URL r)) (entry_for f h b) c else c),
         chain_events (qs @ [p]) r)"
proof (cases rule: chain_cases [of r ps])
  case fail
  then show ?thesis using fallback standard_fallback by blast
next
  case (first qs p rs d h)
  then have "data_provider (Fetch p)" using ok by simp
  then have "d \<noteq> None" using data_provider.body_iff [of "Fetch p" r] first(3) by simp
  then obtain b where d: "d = Some b" by auto
  show ?thesis
    using served [OF first(1,2)] standard_success [OF first(2)] first(1,3) unfolding d by blast
qed

lemma standard_balanced:
  assumes "providers_ok ps"
  shows "spans_balanced (snd (newStandardHandler ps eb f now r c))"
  using assms
proof (cases rule: standard_cases [of ps r eb f now c])
  case fallback
  then show ?thesis
    by (simp add: balanced_append chain_balanced [OF assms] serveFallback_balanced)
next
  case (served qs p rs b h)
  have "providers_ok (qs @ [p])" using assms served(1) by simp
  then show ?thesis unfolding served(4) snd_conv by (rule chain_balanced)
qed

section \<open>A concrete exchange\<close>

text \<open>An upstream that answers every request alike, one that cannot be reached, and a request
  for a departure board; the witnesses run the handlers on them.\<close>

definition answering :: "int \<Rightarrow> bytes \<Rightarrow> http_client" where
  "answering code data =
     \<lparr>NewRequest = (\<lambda>_ _. None),
      Do = (\<lambda>_. (Inr \<lparr>StatusCode = code,
                        resp_header = [(''Content-Type'', [''application/json''])],
                        resp_data = data, resp_fault = None\<rparr>, 0))\<rparr>"

definition unreachable :: http_client where
  "unreachable =
     \<lparr>NewRequest = (\<lambda>_ _. None),
      Do = (\<lambda>_. (Inl (UrlError False ''dial tcp: connection refused''), 0))\<rparr>"

definition sample_request :: request where
  "sample_request =
     \<lparr>Method = ''GET'',
      URL = \<lparr>escaped_path = ''/stops/900100003'', raw_query = [], force_query = False\<rparr>,
      Pattern = ''GET /stops/{id}'', matches = [(''id'', ''900100003'')],
      req_header = [], req_body = []\<rparr>"

definition sample_time :: "int \<Rightarrow> time" where
  "sample_time s = \<lparr>t_inst = Instant (63852825600 + s) 0, t_off = 0\<rparr>"

abbreviation rest_provider :: "http_client \<Rightarrow> DataProvider" where
  "rest_provider client \<equiv> \<lparr>Name = ''transport_rest'', Fetch = Forward client ''https://up''\<rparr>"

lemma Forward_answering:
  "200 \<le> code \<Longrightarrow> code < 300 \<Longrightarrow>
     fst (Forward (answering code data) up r)
       = (Some data, [(''Content-Type'', [''application/json''])], None)"
  by (simp add: Forward_def forward_def answering_def ReadAll_def Let_def)

lemma Forward_unreachable:
  "fst (Forward unreachable up r) = (None, [], Some (UrlError False ''dial tcp: connection refused''))"
  by (simp add: Forward_def forward_def unreachable_def Let_def)

lemma unreachable_fails [simp]: "provider_fails r (rest_provider unreachable)"
  by (simp add: provider_fails_def Forward_unreachable)

lemma rest_provider_ok [simp]: "data_provider (Forward client upstream)"
  by (rule rest.data_provider_axioms)

lemma cache_inv_New [simp]: "cache_inv (NewCache n)"
  by (rule NewCache_inv)

section \<open>Properties of forwarding\<close>

text \<open>\<open>Forward\<close> succeeds exactly when the request could be built, the exchange gave a
  2xx response and its body could be read; it then returns that body and that header.\<close>

theorem Forward_succeeds_iff:
  "fst (Forward client upstream r) = (Some b, h, None) \<longleftrightarrow>
     (NewRequest client (Method r) (upstream @ RequestURI (URL r)) = None \<and>
      (\<exists>resp d. Do client \<lparr>ob_method = Method r, ob_url = upstream @ RequestURI (URL r),
                          ob_header = req_header r, ob_body = req_body r\<rparr> = (Inr resp, d)
        \<and> 200 \<le> StatusCode resp \<and> StatusCode resp < 300
        \<and> resp_fault resp = None \<and> b = resp_data resp \<and> h = resp_header resp))"
  by (auto simp: Forward_def forward_def Let_def ReadAll_def split: option.splits prod.splits sum.splits)

text \<open>The passthrough handler always answers, and never with an upstream error: a 2xx
  response is copied as it is, and everything else becomes a 200 with the empty body, counted as
  one fallback and one upstream error.\<close>

theorem passthrough_total:
  "let (resp, evs) = newPassthroughHandler client upstream eb r
   in (case forward client upstream r of
         (Inr up, _) \<Rightarrow>
           if 200 \<le> StatusCode up \<and> StatusCode up < 300
           then resp = copyUpstreamResponse [] up \<and> count_events is_fallback evs = 0
                \<and> count_events is_upstream_error evs = 0
           else resp = writeEmptyJSON [] eb \<and> count_events is_fallback evs = 1
                \<and> count_events is_upstream_error evs = 1
       | (Inl _, _) \<Rightarrow> resp = writeEmptyJSON [] eb \<and> count_events is_fallback evs = 1
                \<and> count_events is_upstream_error evs = 1)
      \<and> 200 \<le> status resp \<and> status resp < 300"
  by (auto simp: newPassthroughHandler_def Let_def upstream_events_def writeEmptyJSON_def
      copyUpstreamResponse_def split: prod.splits sum.splits if_splits)

section \<open>Properties of the standard handler\<close>

text \<open>C12. The first provider that succeeds answers the request: the client gets a 200 with its
  body and header, whatever the providers after it would do (they are not called), and only the
  calls up to it are recorded.\<close>

theorem first_provider_wins:
  assumes "list_all (provider_fails r) qs" and "fst (Fetch p r) = (Some b, h, None)"
    and "distinct (keys_of h)"
  shows "\<exists>resp c'. newStandardHandler (qs @ p # rs) eb f now r c = ((resp, c'), chain_events (qs @ [p]) r)
           \<and> status resp = 200 \<and> resp_body resp = b
           \<and> header_values (resp_headers resp) = header_values h"
  using standard_success [OF assms(1,2), of rs eb f now c] assms(3)
  by (auto simp: fun_eq_iff header_values_add_all) (simp add: header_values_def)

theorem first_provider_wins_witness:
  "\<exists>resp c'. newStandardHandler
       ([rest_provider unreachable] @ rest_provider (answering 200 ''{}'') # []) ''[]'' None
       (sample_time 0) sample_request (NewCache 1)
     = ((resp, c'), chain_events ([rest_provider unreachable] @ [rest_provider (answering 200 ''{}'')])
          sample_request)
     \<and> status resp = 200 \<and> resp_body resp = ''{}''
     \<and> header_values (resp_headers resp)
         = header_values [(''Content-Type'', [''application/json''])]"
  by (rule first_provider_wins) (simp_all add: Forward_answering)

text \<open>What a client sees of a replayed answer.\<close>

definition replays :: "response \<Rightarrow> header \<Rightarrow> bytes \<Rightarrow> bool" where
  "replays resp h b \<longleftrightarrow> status resp = 200 \<and> resp_body resp = b
     \<and> (\<forall>k. header_values (resp_headers resp) k = (if k = ''X-Cache'' then [''HIT''] else []) @ header_values h k)"

lemma writeFromCache_replays: "distinct (keys_of h) \<Longrightarrow> replays (writeFromCache [] (entry_for f h b)) h b"
  by (simp add: replays_def writeFromCache_def entry_for_def header_values_add_all)
    (simp add: header_values_def)

text \<open>C4. Stale-if-error.  A successful answer that was cacheable is replayed, byte for byte and
  marked \<open>X-Cache: HIT\<close>, to any later request for the same URI whose providers all fail,
  provided it has not expired by then and the cache has since seen fewer distinct other keys than
  it has room for.\<close>

theorem stale_if_error:
  assumes "cache_inv c"
    and "list_all (provider_fails r) qs" and "fst (Fetch p r) = (Some b, h, None)"
    and "cacheable f now b" and "distinct (keys_of h)"
    and "c1 = snd (fst (newStandardHandler (qs @ p # rs) eb f now r c))"
    and "\<forall>x \<in> set xs. spares (RequestURI (URL r)) (entry_for f h b) x"
    and "int (card (op_key ` set xs - {RequestURI (URL r)})) < cache_cap c"
    and "RequestURI (URL r') = RequestURI (URL r)" and "list_all (provider_fails r') ps"
    and "\<not> expired later (entry_for f h b)"
  shows "replays (fst (fst (newStandardHandler ps eb' f' later r' (cache_run xs c1)))) h b"
proof -
  have c1: "c1 = Cache_Set (RequestURI (URL r)) (entry_for f h b) c"
    using assms(4) by (simp add: assms(6) standard_success [OF assms(2,3)])
  have inv: "cache_inv (cache_run xs c1)"
    using run_refines [of c1 xs] Set_inv [OF assms(1)] c1 by simp
  have "map_of (abs_cache (cache_run xs c1)) (RequestURI (URL r)) = Some (entry_for f h b)"
    unfolding c1 by (rule Cache_survives [OF assms(1,7,8)])
  from serveFallback_hit [OF inv this assms(11)] show ?thesis
    by (simp add: standard_fallback [OF assms(10)] assms(9) writeFromCache_replays [OF assms(5)])
qed

theorem stale_if_error_witness:
  "replays (fst (fst (newStandardHandler [rest_provider unreachable] ''[]'' None (sample_time 60) sample_request
      (cache_run [OpSet ''/lines'' (entry_for None [] ''[]'')]
        (snd (fst (newStandardHandler ([] @ rest_provider (answering 200 ''{}'') # []) ''[]'' None
           (sample_time 0) sample_request (NewCache 2))))))))
     [(''Content-Type'', [''application/json''])] ''{}''"
  by (rule stale_if_error [where r = sample_request and qs = "[]" and rs = "[]"
        and p = "rest_provider (answering 200 ''{}'')" and now = "sample_time 0" and eb = "''[]''"
        and c = "NewCache 2" and f = None])
    (simp_all add: Forward_answering cacheable_def sample_request_def
      RequestURI_def entry_for_def expired_def)

lemma fallback_answered:
  assumes "cache_inv c" and "list_all (provider_fails r) ps"
  shows "fst (fst (newStandardHandler ps eb f now r c)) =
    (case map_of (abs_cache c) (RequestURI (URL r)) of
       None \<Rightarrow> writeEmptyJSON (header_set ''X-Cache'' ''MISS'' []) eb
     | Some e \<Rightarrow> if expired now e then writeEmptyJSON (header_set ''X-Cache'' ''MISS'' []) eb
                 else writeFromCache [] e)"
  using serveFallback_hit [OF assms(1), of "RequestURI (URL r)" _ now eb r]
    serveFallback_miss [OF assms(1), of "RequestURI (URL r)" now eb r]
  by (auto simp: standard_fallback [OF assms(2)] split: option.splits)

text \<open>C13. When every provider fails, the answer is the stored entry for this URI if there is one
  that has not expired, and otherwise the empty body with \<open>X-Cache: MISS\<close>; an expired
  entry is never served.\<close>

theorem fallback_choice:
  assumes "cache_inv c" and "list_all (provider_fails r) ps"
  shows "fst (fst (newStandardHandler ps eb f now r c)) =
    (case map_of (abs_cache c) (RequestURI (URL r)) of
       None \<Rightarrow> writeEmptyJSON (header_set ''X-Cache'' ''MISS'' []) eb
     | Some e \<Rightarrow> if expired now e then writeEmptyJSON (header_set ''X-Cache'' ''MISS'' []) eb
                 else writeFromCache [] e)"
  by (rule fallback_answered [OF assms])

theorem fallback_choice_witness:
  "fst (fst (newStandardHandler [rest_provider unreachable] ''[]'' None (sample_time 0) sample_request (NewCache 1)))
     = (case map_of (abs_cache (NewCache 1)) (RequestURI (URL sample_request)) of
       None \<Rightarrow> writeEmptyJSON (header_set ''X-Cache'' ''MISS'' []) ''[]''
     | Some e \<Rightarrow> if expired (sample_time 0) e then writeEmptyJSON (header_set ''X-Cache'' ''MISS'' []) ''[]''
                 else writeFromCache [] e)"
  by (rule fallback_choice) simp_all

text \<open>With well-behaved providers the standard handler always answers 200, as long as the
  entry stored for the URI has that status; and what it stores has that status again.\<close>

lemma standard_always_200:
  assumes "cache_inv c" and "providers_ok ps"
    and "\<forall>e. map_of (abs_cache c) (RequestURI (URL r)) = Some e \<longrightarrow> statusCode e = 200"
  shows "status (fst (fst (newStandardHandler ps eb f now r c))) = 200 \<and>
    (\<forall>e. map_of (abs_cache (snd (fst (newStandardHandler ps eb f now r c)))) (RequestURI (URL r)) = Some e
        \<longrightarrow> statusCode e = 200)"
  using assms(2)
proof (cases rule: standard_cases [of ps r eb f now c])
  case fallback
  have "map_of (abs_cache (snd (Cache_Get now (RequestURI (URL r)) c))) (RequestURI (URL r))
          \<in> {None, map_of (abs_cache c) (RequestURI (URL r))}"
    by (rule lru.get_sub [OF assms(1)])
  then show ?thesis
    using assms(3) fallback_answered [OF assms(1) fallback(1), of eb f now]
    by (auto simp: fallback(2) serveFallback_cache writeEmptyJSON_def writeFromCache_def
        split: option.splits)
next
  case (served qs p rs b h)
  have "statusCode (entry_for f h b) = 200" by (simp add: entry_for_def)
  then have "statusCode e = 200"
    if "map_of (abs_cache (Cache_Set (RequestURI (URL r)) (entry_for f h b) c)) (RequestURI (URL r)) = Some e"
    for e
    using lru.put_cases [OF assms(1) that] assms(3) by blast
  then show ?thesis using assms(3) by (simp add: served(4))
qed

text \<open>The fallback counter counts exactly the requests that end in the empty body: it goes up
  by one when every provider fails and the cache has nothing valid, and not otherwise.\<close>

theorem fallback_counted:
  assumes "cache_inv c" and "providers_ok ps"
  shows "count_events is_fallback (snd (newStandardHandler ps eb f now r c)) =
    (if list_all (provider_fails r) ps \<and> fst (Cache_Get now (RequestURI (URL r)) c) = None then 1 else 0)"
  using assms(2)
proof (cases rule: standard_cases [of ps r eb f now c])
  case fallback
  then show ?thesis
    using chain_no_fallback [OF assms(2)]
    by (cases "Cache_Get now (RequestURI (URL r)) c") (auto simp: serveFallback_def split: option.splits)
next
  case (served qs p rs b h)
  have "providers_ok (qs @ [p])" using assms(2) served(1) by simp
  then have "count_events is_fallback (chain_events (qs @ [p]) r) = 0" by (rule chain_no_fallback)
  moreover have "\<not> list_all (provider_fails r) ps"
    using served(1,3) by (simp add: provider_fails_def)
  ultimately show ?thesis using served(4) by simp
qed

theorem fallback_counted_witness:
  "count_events is_fallback (snd (newStandardHandler [rest_provider unreachable] ''[]'' None
      (sample_time 0) sample_request (NewCache 1))) =
    (if list_all (provider_fails sample_request) [rest_provider unreachable]
        \<and> fst (Cache_Get (sample_time 0) (RequestURI (URL sample_request)) (NewCache 1)) = None
     then 1 else 0)"
  by (rule fallback_counted) simp_all

text \<open>Every span that a request opens is closed, innermost first, on every path.\<close>

theorem standard_spans_balanced:
  assumes "providers_ok ps"
  shows "spans_balanced (snd (newStandardHandler ps eb f now r c))"
  by (rule standard_balanced [OF assms])

theorem standard_spans_balanced_witness:
  "spans_balanced (snd (newStandardHandler [rest_provider unreachable] ''[]'' None
     (sample_time 0) sample_request (NewCache 1)))"
  by (rule standard_spans_balanced) simp

section \<open>What every caching route does to its cache\<close>

text \<open>
  The contract between the server and a route that owns a key of a shared cache: the
  invariant and the capacity are kept, only the entry of the route's own key can change (others
  can at most be evicted), and the spans of a request are nested.
\<close>

locale route_handler =
  fixes run :: handler
    and key :: "request \<Rightarrow> string"
  assumes run_inv: "cache_inv c \<Longrightarrow> cache_inv (snd (fst (run now r c)))"
    and run_cap: "cache_cap (snd (fst (run now r c))) = cache_cap c"
    and run_frame: "cache_inv c \<Longrightarrow> k \<noteq> key r \<Longrightarrow>
      map_of (abs_cache (snd (fst (run now r c)))) k \<in> {None, map_of (abs_cache c) k}"
    and run_spans: "spans_balanced (snd (run now r c))"
begin

lemma untouched:
  "cache_inv c \<Longrightarrow> map_of (abs_cache (snd (fst (run now r c)))) k = Some e \<Longrightarrow>
     k = key r \<or> map_of (abs_cache c) k = Some e"
  using run_frame [of c k r now] by (cases "k = key r") auto

lemma spans_closed: "spans_close [] (snd (run now r c))"
  by (rule balanced_closes [OF run_spans])

end

definition uri_key :: "request \<Rightarrow> string" where
  "uri_key r = RequestURI (URL r)"

text \<open>A route that, whatever happens, either looks its key up or stores under it, is such a
  handler.\<close>

definition touches :: "string \<Rightarrow> cache \<Rightarrow> cache \<Rightarrow> bool" where
  "touches k c c' \<longleftrightarrow> c' = c \<or> (\<exists>now. c' = snd (Cache_Get now k c)) \<or> (\<exists>e. c' = Cache_Set k e c)"

lemma touches_inv: "touches k c c' \<Longrightarrow> cache_inv c \<Longrightarrow> cache_inv c'"
  by (auto simp: touches_def Get_inv Set_inv)

lemma touches_cap: "touches k c c' \<Longrightarrow> cache_cap c' = cache_cap c"
  by (auto simp: touches_def Get_cap Set_cap)

lemma touches_frame:
  "touches k c c' \<Longrightarrow> cache_inv c \<Longrightarrow> k' \<noteq> k \<Longrightarrow>
     map_of (abs_cache c') k' \<in> {None, map_of (abs_cache c) k'}"
  using lru.get_sub [of c _ k k'] lru.put_other [of c k' k] by (auto simp: touches_def)

lemma route_handlerI:
  assumes "\<And>now r c. touches (key r) c (snd (fst (run now r c)))"
    and "\<And>now r c. spans_balanced (snd (run now r c))"
  shows "route_handler run key"
  using assms by unfold_locales (blast intro: touches_inv touches_cap dest: touches_frame)+

lemma serveFallback_touches:
  "touches (RequestURI (URL r)) c
     (snd (fst (serveFallback eb (RequestURI (URL r)) now r c)))"
  by (auto simp: serveFallback_cache touches_def)

lemma standard_touches:
  assumes "providers_ok ps"
  shows "touches (uri_key r) c (snd (fst (newStandardHandler ps eb f now r c)))"
  using assms
proof (cases rule: standard_cases [of ps r eb f now c])
  case fallback
  then show ?thesis using serveFallback_touches by (simp add: uri_key_def)
next
  case (served qs p rs b h)
  then show ?thesis by (auto simp: touches_def uri_key_def)
qed

lemma standard_route: "providers_ok ps \<Longrightarrow> route_handler (newStandardHandler ps eb f) uri_key"
  by (intro route_handlerI standard_touches) (auto intro: standard_balanced)

end
