(* ===== verification/Routes.thy ===== *)
theory Routes
  imports Proxy
begin

text \<open>
  The handlers of the proxied routes, \<open>handle_*.go\<close>: the thin wrappers around the standard
  and the passthrough handler, each with its empty body and its expiry function, and the two that
  treat redirects as content, shapes and maps.
\<close>

section \<open>The wrappers\<close>

definition handleArrivals :: "DataProvider list \<Rightarrow> handler" where
  "handleArrivals providers = newStandardHandler providers ''{\"arrivals\":[]}'' (Some arrivalsExpiry)"

definition handleDepartures :: "DataProvider list \<Rightarrow> handler" where
  "handleDepartures providers = newStandardHandler providers ''{\"departures\":[]}'' (Some departuresExpiry)"

definition handleJourneys :: "DataProvider list \<Rightarrow> handler" where
  "handleJourneys providers = newStandardHandler providers ''{\"journeys\":[]}'' (Some journeysExpiry)"

definition handleRefreshJourney :: "DataProvider list \<Rightarrow> handler" where
  "handleRefreshJourney providers =
     newStandardHandler providers ''{\"journey\":{}}'' (Some refreshJourneyExpiry)"

definition handleLines :: "DataProvider list \<Rightarrow> handler" where
  "handleLines providers = newStandardHandler providers ''[]'' None"

definition handleLine :: "DataProvider list \<Rightarrow> handler" where
  "handleLine providers = newStandardHandler providers ''{}'' None"

definition handleLocations :: "DataProvider list \<Rightarrow> handler" where
  "handleLocations providers = newStandardHandler providers ''[]'' None"

definition handleNearby :: "DataProvider list \<Rightarrow> handler" where
  "handleNearby providers = newStandardHandler providers ''[]'' None"

definition handleStations :: "DataProvider list \<Rightarrow> handler" where
  "handleStations providers = newStandardHandler providers ''{}'' None"

definition handleStation :: "DataProvider list \<Rightarrow> handler" where
  "handleStation providers = newStandardHandler providers ''{}'' None"

definition handleReachableFrom :: "DataProvider list \<Rightarrow> handler" where
  "handleReachableFrom providers =
     newStandardHandler providers ''{\"reachable\":[]}'' (Some reachableFromExpiry)"

definition handleStop :: "DataProvider list \<Rightarrow> handler" where
  "handleStop providers = newStandardHandler providers ''{}'' None"

definition handleTrips :: "DataProvider list \<Rightarrow> handler" where
  "handleTrips providers = newStandardHandler providers ''{\"trips\":[]}'' (Some tripsExpiry)"

definition handleTrip :: "DataProvider list \<Rightarrow> handler" where
  "handleTrip providers = newStandardHandler providers ''{\"trip\":{}}'' (Some tripExpiry)"

definition handleRadar :: "http_client \<Rightarrow> string \<Rightarrow> request \<Rightarrow> response logged" where
  "handleRadar client upstream = newPassthroughHandler client upstream ''{\"movements\":[]}''"

lemmas standard_routes =
  handleArrivals_def handleDepartures_def handleJourneys_def handleRefreshJourney_def
  handleLines_def handleLine_def handleLocations_def handleNearby_def handleStations_def
  handleStation_def handleReachableFrom_def handleStop_def handleTrips_def handleTrip_def

section \<open>Shapes\<close>

definition redirect_entry :: "http_response \<Rightarrow> bytes \<Rightarrow> cache_entry" where
  "redirect_entry resp data =
     \<lparr>statusCode = StatusCode resp, header = resp_header resp, body = data, expiresAt = zero_time\<rparr>"

definition handleShape :: "http_client \<Rightarrow> string \<Rightarrow> handler" where
  "handleShape client upstream now r c =
     (let key = RequestURI (URL r); path = routePath r
      in case forward client upstream r of
           (Inl err, _) \<Rightarrow>
             (let (res, evs) = serveFallback ''{}'' key now r c
              in (res, UpstreamErrorsTotal ''transport_rest'' (Method r) path (errorReason err) # evs))
         | (Inr resp, duration) \<Rightarrow>
             (let evs = upstream_events ''transport_rest'' (Method r) path duration
                          (Itoa (StatusCode resp))
              in if StatusCode resp \<ge> 200 \<and> StatusCode resp < 400
                 then case ReadAll resp of
                        Inl err \<Rightarrow>
                          (let (res, evs') = serveFallback ''{}'' key now r c in (res, evs @ evs'))
                      | Inr data \<Rightarrow>
                          ((\<lparr>status = StatusCode resp, resp_headers = add_all (resp_header resp) [],
                             resp_body = data\<rparr>,
                            Cache_Set key (redirect_entry resp data) c), evs)
                 else (let (res, evs') = serveFallback ''{}'' key now r c
                       in (res, evs @ UpstreamErrorsTotal ''transport_rest'' (Method r) path
                                        (httpErrorReason (StatusCode resp)) # evs'))))"

section \<open>Maps\<close>

text \<open>\<open>http.Error\<close>; the headers that it would delete are not set here.\<close>

definition http_Error :: "header \<Rightarrow> string \<Rightarrow> int \<Rightarrow> response" where
  "http_Error w msg code =
     \<lparr>status = code,
      resp_headers = header_set ''X-Content-Type-Options'' ''nosniff''
        (header_set ''Content-Type'' ''text/plain; charset=utf-8'' w),
      resp_body = msg @ [CHR 0x0A]\<rparr>"

definition bad_gateway :: response where
  "bad_gateway = http_Error (header_set ''X-Cache'' ''MISS'' []) ''bad gateway'' 502"

definition handleMap :: "http_client \<Rightarrow> string \<Rightarrow> handler" where
  "handleMap client upstream now r c =
     (let key = RequestURI (URL r); path = routePath r
      in case forward client upstream r of
           (Inl err, _) \<Rightarrow>
             (let (found, c') = Cache_Get now key c;
                  resp = (case found of Some entry \<Rightarrow> writeFromCache [] entry | None \<Rightarrow> bad_gateway)
              in ((resp, c'),
                  [UpstreamErrorsTotal ''transport_rest'' (Method r) path (errorReason err)]))
         | (Inr up, duration) \<Rightarrow>
             (let evs = upstream_events ''transport_rest'' (Method r) path duration
                          (Itoa (StatusCode up))
              in if StatusCode up \<ge> 200 \<and> StatusCode up < 400
                 then case ReadAll up of
                        Inl err \<Rightarrow>
                          (let (found, c') = Cache_Get now key c;
                               resp = (case found of Some entry \<Rightarrow> writeFromCache [] entry
                                       | None \<Rightarrow> bad_gateway)
                           in ((resp, c'), evs))
                      | Inr data \<Rightarrow>
                          ((\<lparr>status = StatusCode up, resp_headers = add_all (resp_header up) [],
                             resp_body = data\<rparr>,
                            Cache_Set key (redirect_entry up data) c), evs)
                 else (let (found, c') = Cache_Get now key c;
                           resp = (case found of Some entry \<Rightarrow> writeFromCache [] entry
                                   | None \<Rightarrow> copyUpstreamResponse [] up)
                       in ((resp, c'),
                           evs @ [UpstreamErrorsTotal ''transport_rest'' (Method r) path
                                    (httpErrorReason (StatusCode up))]))))"

section \<open>All of them honour the contract of a caching route\<close>

interpretation shape: route_handler "handleShape client upstream" uri_key for client upstream
proof (rule route_handlerI)
  fix now r c
  let ?fb = "serveFallback ''{}'' (RequestURI (URL r)) now r c"
  have fb: "touches (uri_key r) c (snd (fst ?fb))" "spans_balanced (snd ?fb)"
    by (simp_all add: uri_key_def serveFallback_touches serveFallback_balanced)
  have own: "spans_balanced (upstream_events u m p d s)" for u m p d s
    by (simp add: upstream_events_def balanced_other)
  show "touches (uri_key r) c (snd (fst (handleShape client upstream now r c)))"
    using fb(1) by (auto simp: handleShape_def Let_def uri_key_def touches_def
        split: prod.splits sum.splits)
  show "spans_balanced (snd (handleShape client upstream now r c))"
    using fb(2) own by (auto simp: handleShape_def Let_def intro!: balanced_append balanced_other
        split: prod.splits sum.splits)
qed

lemma Cache_Get_touches: "Cache_Get now k c = (x, c') \<Longrightarrow> touches k c c'"
  unfolding touches_def by (metis snd_conv)

lemma touches_Set [simp]: "touches k c (Cache_Set k e c)"
  by (auto simp: touches_def)

interpretation map: route_handler "handleMap client upstream" uri_key for client upstream
proof (rule route_handlerI)
  fix now r c
  have own: "spans_balanced (upstream_events u m p d s)" for u m p d s
    by (simp add: upstream_events_def balanced_other)
  show "touches (uri_key r) c (snd (fst (handleMap client upstream now r c)))"
    by (auto simp: handleMap_def Let_def uri_key_def dest: Cache_Get_touches
        split: prod.splits sum.splits)
  show "spans_balanced (snd (handleMap client upstream now r c))"
    using own by (auto simp: handleMap_def Let_def intro!: balanced_append balanced_other
        split: prod.splits sum.splits)
qed

section \<open>What shapes and maps answer\<close>

text \<open>The content of an exchange: a 2xx or 3xx response that could be read completely.\<close>

definition upstream_content :: "http_client \<Rightarrow> string \<Rightarrow> request \<Rightarrow> http_response option" where
  "upstream_content client upstream r =
     (case fst (forward client upstream r) of
        Inl _ \<Rightarrow> None
      | Inr resp \<Rightarrow> if 200 \<le> StatusCode resp \<and> StatusCode resp < 400 \<and> resp_fault resp = None
                   then Some resp else None)"

lemma shape_content:
  assumes "upstream_content client upstream r = Some resp"
  shows "fst (handleShape client upstream now r c) =
    (\<lparr>status = StatusCode resp, resp_headers = add_all (resp_header resp) [],
      resp_body = resp_data resp\<rparr>,
     Cache_Set (RequestURI (URL r)) (redirect_entry resp (resp_data resp)) c)"
  using assms by (auto simp: upstream_content_def handleShape_def Let_def ReadAll_def
      split: prod.splits sum.splits if_splits)

lemma shape_no_content:
  assumes "upstream_content client upstream r = None"
  shows "fst (handleShape client upstream now r c)
           = fst (serveFallback ''{}'' (RequestURI (URL r)) now r c)"
  using assms by (auto simp: upstream_content_def handleShape_def Let_def ReadAll_def
      split: prod.splits sum.splits if_splits option.splits)

lemma map_content:
  assumes "upstream_content client upstream r = Some resp"
  shows "fst (handleMap client upstream now r c) =
    (\<lparr>status = StatusCode resp, resp_headers = add_all (resp_header resp) [],
      resp_body = resp_data resp\<rparr>,
     Cache_Set (RequestURI (URL r)) (redirect_entry resp (resp_data resp)) c)"
  using assms by (auto simp: upstream_content_def handleMap_def Let_def ReadAll_def
      split: prod.splits sum.splits if_splits)

definition map_failure :: "http_client \<Rightarrow> string \<Rightarrow> request \<Rightarrow> response" where
  "map_failure client upstream r =
     (case fst (forward client upstream r) of
        Inr resp \<Rightarrow> if 200 \<le> StatusCode resp \<and> StatusCode resp < 400 then bad_gateway
                    else copyUpstreamResponse [] resp
      | Inl _ \<Rightarrow> bad_gateway)"

lemma map_no_content:
  assumes "upstream_content client upstream r = None"
  shows "fst (handleMap client upstream now r c) =
    (case fst (Cache_Get now (RequestURI (URL r)) c) of
       Some e \<Rightarrow> writeFromCache [] e | None \<Rightarrow> map_failure client upstream r,
     snd (Cache_Get now (RequestURI (URL r)) c))"
  using assms by (cases "Cache_Get now (RequestURI (URL r)) c")
    (auto simp: upstream_content_def handleMap_def map_failure_def Let_def ReadAll_def
      split: prod.splits sum.splits if_splits option.splits)

lemma stored_entry_survives:
  assumes "cache_inv c" and "fst h = (resp, Cache_Set k e c)"
    and "\<forall>x \<in> set xs. spares k e x"
    and "int (card (op_key ` set xs - {k})) < cache_cap c"
  shows "cache_inv (cache_run xs (snd (fst h)))"
    and "map_of (abs_cache (cache_run xs (snd (fst h)))) k = Some e"
  using run_refines [OF Set_inv [OF assms(1)], of xs k e] Cache_survives [OF assms(1,3,4)]
  by (simp_all add: assms(2))

text \<open>Shapes: the content of the exchange (redirects included) is copied to the client with
  its own status, and stored; anything else is answered from the cache or with an empty
  object, never with an error.\<close>

theorem shape_spec:
  "fst (handleShape client upstream now r c) =
    (case upstream_content client upstream r of
       Some resp \<Rightarrow>
         (copyUpstreamResponse [] resp,
          Cache_Set (RequestURI (URL r)) (redirect_entry resp (resp_data resp)) c)
     | None \<Rightarrow> fst (serveFallback ''{}'' (RequestURI (URL r)) now r c))"
  by (auto simp: shape_content shape_no_content copyUpstreamResponse_def split: option.splits)


text \<open>A redirect that was answered once is replayed with its status, header and body
  whenever the upstream fails later, however much later, while the cache keeps the key: the
  entries of shapes and maps do not expire.\<close>

theorem redirect_replayed:
  assumes "cache_inv c" and "upstream_content client upstream r = Some resp"
    and "\<forall>x \<in> set xs. spares (RequestURI (URL r)) (redirect_entry resp (resp_data resp)) x"
    and "int (card (op_key ` set xs - {RequestURI (URL r)})) < cache_cap c"
    and "RequestURI (URL r') = RequestURI (URL r)" and "upstream_content client' upstream' r' = None"
  shows "fst (fst (handleShape client' upstream' later r'
             (cache_run xs (snd (fst (handleShape client upstream now r c))))))
           = writeFromCache [] (redirect_entry resp (resp_data resp))
    \<and> fst (fst (handleMap client' upstream' later r'
             (cache_run xs (snd (fst (handleMap client upstream now r c))))))
           = writeFromCache [] (redirect_entry resp (resp_data resp))"
proof
  let ?e = "redirect_entry resp (resp_data resp)"
  have fresh: "\<not> expired later ?e" by (simp add: redirect_entry_def expired_def)
  note s = stored_entry_survives [OF assms(1) shape_content [OF assms(2)] assms(3,4)]
  note m = stored_entry_survives [OF assms(1) map_content [OF assms(2)] assms(3,4)]
  show "fst (fst (handleShape client' upstream' later r'
             (cache_run xs (snd (fst (handleShape client upstream now r c))))))
           = writeFromCache [] ?e"
    by (simp add: shape_no_content [OF assms(6)] assms(5) serveFallback_hit [OF s fresh])
  show "fst (fst (handleMap client' upstream' later r'
             (cache_run xs (snd (fst (handleMap client upstream now r c))))))
           = writeFromCache [] ?e"
    using lru.get_result [OF m(1), of later] m(2) fresh
    by (simp add: map_no_content [OF assms(6)] assms(5))
qed

lemma content_answering:
  "200 \<le> code \<Longrightarrow> code < 400 \<Longrightarrow>
     upstream_content (answering code data) upstream r =
       Some \<lparr>StatusCode = code, resp_header = [(''Content-Type'', [''application/json''])],
             resp_data = data, resp_fault = None\<rparr>"
  by (simp add: upstream_content_def forward_def answering_def)

lemma content_unreachable [simp]: "upstream_content unreachable upstream r = None"
  by (simp add: upstream_content_def forward_def unreachable_def)

theorem redirect_replayed_witness:
  "let resp = \<lparr>StatusCode = 302, resp_header = [(''Content-Type'', [''application/json''])],
               resp_data = ''moved'', resp_fault = None\<rparr>;
       ops = [OpGet (sample_time 5) ''/shapes/2'']
   in fst (fst (handleShape unreachable ''https://up'' (sample_time 9) sample_request
             (cache_run ops (snd (fst (handleShape (answering 302 ''moved'') ''https://up'' (sample_time 0)
                sample_request (NewCache 2)))))))
        = writeFromCache [] (redirect_entry resp (resp_data resp))
    \<and> fst (fst (handleMap unreachable ''https://up'' (sample_time 9) sample_request
             (cache_run ops (snd (fst (handleMap (answering 302 ''moved'') ''https://up'' (sample_time 0)
                sample_request (NewCache 2)))))))
        = writeFromCache [] (redirect_entry resp (resp_data resp))"
  unfolding Let_def
  by (rule redirect_replayed [where r = sample_request and now = "sample_time 0"])
    (simp_all add: content_answering sample_request_def RequestURI_def)

section \<open>Requests that the key does not tell apart\<close>

text \<open>
  The cache key is the request URI alone.  Two kinds of requests get other answers for the same
  URI: a HEAD request, which Go's \<open>ServeMux\<close> also sends to a \<open>GET\<close> pattern and
  whose answer has no body, and a conditional request, whose header is forwarded and which an
  upstream may answer with a 304 without a body.
\<close>

text \<open>C33. The body of a successful HEAD request (which is empty) to a static route replaces the
  stored answer, and a later GET that has to fall back is served that empty body with status 200
  instead of the route's JSON.\<close>

theorem head_replaces_stored_body:
  assumes "cache_inv c" and "0 < cache_cap c"
    and "Method r = ''HEAD''" and "fst (Fetch p r) = (Some [], h, None)"
    and "Method r' = ''GET''" and "URL r' = URL r" and "list_all (provider_fails r') ps"
  shows "let c1 = snd (fst (newStandardHandler (p # rest_of_chain) eb None now r c));
             resp = fst (fst (newStandardHandler ps eb None later r' c1))
         in status resp = 200 \<and> resp_body resp = []"
proof -
  have c1: "snd (fst (newStandardHandler (p # rest_of_chain) eb None now r c))
      = Cache_Set (RequestURI (URL r)) (entry_for None h []) c"
    using standard_success [OF _ assms(4), of "[]" rest_of_chain eb None now c]
    by (simp add: cacheable_def)
  have "\<not> expired later (entry_for None h [])" by (simp add: entry_for_def expired_def)
  from serveFallback_hit [OF Set_inv [OF assms(1)] lru.put_same [OF assms(1,2)] this]
  show ?thesis
    by (simp add: c1 standard_fallback [OF assms(7)] assms(6) Let_def writeFromCache_def entry_for_def)
qed

theorem head_replaces_stored_body_witness:
  "let c1 = snd (fst (newStandardHandler (rest_provider (answering 200 []) # []) ''{}'' None (sample_time 0)
              (sample_request\<lparr>Method := ''HEAD''\<rparr>) (NewCache 1)));
       resp = fst (fst (newStandardHandler [rest_provider unreachable] ''{}'' None (sample_time 1)
                 sample_request c1))
   in status resp = 200 \<and> resp_body resp = []"
  by (rule head_replaces_stored_body)
    (simp_all add: Forward_answering sample_request_def)

text \<open>A 304 counts as content of a shape or a map: the answer to a conditional request is
  stored for the URI, and replayed as a 304 without a body to requests that were not conditional.\<close>

theorem not_modified_is_stored:
  assumes "cache_inv c" and "0 < cache_cap c"
    and "upstream_content client upstream r = Some resp" and "StatusCode resp = 304"
    and "resp_data resp = []"
    and "URL r' = URL r" and "upstream_content client upstream r' = None"
  shows "let c1 = snd (fst (handleShape client upstream now r c));
             answer = fst (fst (handleShape client upstream later r' c1))
         in status answer = 304 \<and> resp_body answer = []"
proof -
  let ?e = "redirect_entry resp (resp_data resp)"
  have "\<not> expired later ?e" by (simp add: redirect_entry_def expired_def)
  from serveFallback_hit [OF Set_inv [OF assms(1)] lru.put_same [OF assms(1,2)] this]
  show ?thesis
    by (simp add: shape_content [OF assms(3)] shape_no_content [OF assms(7)] assms(4,5,6) Let_def
        writeFromCache_def redirect_entry_def)
qed

definition conditional_upstream :: http_client where
  "conditional_upstream =
     \<lparr>NewRequest = (\<lambda>_ _. None),
      Do = (\<lambda>ob. (if header_values (ob_header ob) ''If-None-Match'' = [] then Inl JsonError
                   else Inr \<lparr>StatusCode = 304, resp_header = [], resp_data = [], resp_fault = None\<rparr>, 0))\<rparr>"

theorem not_modified_is_stored_witness:
  "let c1 = snd (fst (handleShape conditional_upstream ''https://up'' (sample_time 0)
             (sample_request\<lparr>req_header := [(''If-None-Match'', [''x''])]\<rparr>) (NewCache 1)));
       answer = fst (fst (handleShape conditional_upstream ''https://up'' (sample_time 1) sample_request c1))
   in status answer = 304 \<and> resp_body answer = []"
  by (rule not_modified_is_stored [where resp = "\<lparr>StatusCode = 304, resp_header = [], resp_data = [],
         resp_fault = None\<rparr>"])
    (simp_all add: upstream_content_def forward_def conditional_upstream_def sample_request_def
      header_values_def)

end
