(* ===== verification/GoFloat.thy ===== *)
theory GoFloat
  imports GoJson Complex_Main
begin

text \<open>
  IEEE 754 binary64 arithmetic as far as the program uses it: rounding to nearest, the
  operations \<open>/\<close>, \<open>*\<close> and \<open>+\<close>, conversion from and to \<open>int\<close>, parsing and printing.  A finite
  value is the rational it stands for (the sign of a zero is not kept).
\<close>

datatype float64 = Fin rat | PosInf | NegInf | NaN

section \<open>Rounding\<close>

function bits :: "int \<Rightarrow> int" where
  "bits n = (if n \<le> 0 then 0 else 1 + bits (n div 2))"
  by auto
termination by (relation "measure nat") auto

declare bits.simps [simp del]

definition pow2 :: "int \<Rightarrow> rat" where
  "pow2 e = (if 0 \<le> e then 2 ^ nat e else 1 / 2 ^ nat (- e))"

text \<open>The exponent \<open>e\<close> with \<open>2^e \<le> x < 2^(e+1)\<close>, for a positive \<open>x\<close>.\<close>

definition binade :: "rat \<Rightarrow> int" where
  "binade x =
     (let (p, q) = quotient_of x;
          e = bits p - bits q
      in if pow2 e \<le> x then e else e - 1)"

definition round_even :: "rat \<Rightarrow> int" where
  "round_even x =
     (let f = \<lfloor>x\<rfloor>; d = x - of_int f
      in if d < 1 / 2 \<or> (d = 1 / 2 \<and> even f) then f else f + 1)"

definition ulp :: "rat \<Rightarrow> rat" where
  "ulp x = pow2 (max (binade \<bar>x\<bar> - 52) (- 1074))"

definition round64 :: "rat \<Rightarrow> rat" where
  "round64 x = (if x = 0 then 0 else of_int (round_even (x / ulp x)) * ulp x)"

definition to_float :: "rat \<Rightarrow> float64" where
  "to_float x =
     (let y = round64 x
      in if pow2 1024 \<le> y then PosInf else if y \<le> - pow2 1024 then NegInf else Fin y)"

lemma bits_bounds: "0 < n \<Longrightarrow> \<exists>k. bits n = int (Suc k) \<and> 2 ^ k \<le> n \<and> n < 2 ^ Suc k"
proof (induction n rule: bits.induct)
  case (1 n)
  show ?case
  proof (cases "n div 2 \<le> 0")
    case True
    then have "n = 1" using 1(2) by auto
    then show ?thesis by (intro exI [of _ 0]) (simp add: bits.simps)
  next
    case False
    define m where "m = n div 2"
    obtain k where k: "bits m = int (Suc k)" "2 ^ k \<le> m" "m < 2 ^ Suc k"
      using 1 False by (auto simp: m_def)
    have b: "bits n = 1 + bits m" using 1(2) by (simp add: m_def bits.simps [of n])
    have "2 * m \<le> n" "n < 2 * m + 2" by (simp_all add: m_def)
    then show ?thesis using k b by (intro exI [of _ "Suc k"]) simp
  qed
qed

lemma bits_rat:
  assumes "0 < p"
  obtains k where "bits p = int (Suc k)" "(2::rat) ^ k \<le> of_int p" "of_int p < (2::rat) ^ Suc k"
proof -
  obtain k where k: "bits p = int (Suc k)" and b: "2 ^ k \<le> p" "p < 2 ^ Suc k"
    using bits_bounds [OF assms] by auto
  have "of_int (2 ^ k) \<le> (of_int p :: rat)" "of_int p < (of_int (2 ^ Suc k) :: rat)"
    using b by (simp_all only: of_int_le_iff of_int_less_iff)
  with k that show ?thesis by simp
qed

lemma pow2_pos [simp]: "0 < pow2 e"
  by (simp add: pow2_def)

lemma pow2_nonneg [simp]: "0 \<le> pow2 e" and pow2_nonzero [simp]: "pow2 e \<noteq> 0"
  by (simp_all add: less_imp_le pow2_def)

lemma pow2_powi: "pow2 e = 2 powi e"
  by (simp add: pow2_def power_int_def power_inverse inverse_eq_divide power_one_over)

lemma pow2_add: "pow2 (a + b) = pow2 a * pow2 b"
  by (simp add: pow2_powi power_int_add)

lemma pow2_nat: "pow2 (int n) = 2 ^ n"
  by (simp add: pow2_def)

lemma pow2_mono: "a \<le> b \<Longrightarrow> pow2 a \<le> pow2 b"
  by (simp add: pow2_powi power_int_increasing)

lemma binade_correct:
  assumes "0 < x"
  shows "pow2 (binade x) \<le> x" and "x < pow2 (binade x + 1)"
proof -
  obtain p q where pq: "quotient_of x = (p, q)" by (cases "quotient_of x")
  have q: "0 < q" and x: "x = of_int p / of_int q"
    using quotient_of_denom_pos [OF pq] quotient_of_div [OF pq] by simp_all
  have p: "0 < p" using assms q x by (simp add: zero_less_divide_iff)
  obtain kp where kp: "bits p = int (Suc kp)"
    and p': "(2::rat) ^ kp \<le> of_int p" "of_int p < (2::rat) ^ Suc kp"
    using p by (rule bits_rat)
  obtain kq where kq: "bits q = int (Suc kq)"
    and q': "(2::rat) ^ kq \<le> of_int q" "of_int q < (2::rat) ^ Suc kq"
    using q by (rule bits_rat)
  define bp bq where "bp = Suc kp" and "bq = Suc kq"
  define e where "e = int bp - int bq"
  have "x < 2 ^ bp / 2 ^ kq"
    unfolding x bp_def using p q p' q' by (intro frac_less) auto
  also have "(2::rat) ^ bp / 2 ^ kq = pow2 (e + 1)"
    by (simp add: e_def bq_def pow2_powi power_int_diff)
  finally have upper: "x < pow2 (e + 1)" .
  have "2 ^ kp / 2 ^ bq \<le> x"
    unfolding x bq_def using p q p' q' by (intro frac_le) auto
  also have "(2::rat) ^ kp / 2 ^ bq = pow2 (e - 1)"
    by (simp add: e_def bp_def pow2_powi power_int_diff)
  finally have lower: "pow2 (e - 1) \<le> x" .
  have b: "binade x = (if pow2 e \<le> x then e else e - 1)"
    by (simp add: binade_def pq e_def bp_def bq_def kp kq)
  show "pow2 (binade x) \<le> x" "x < pow2 (binade x + 1)"
    using upper lower by (auto simp: b)
qed

lemma round_even_error: "\<bar>of_int (round_even x) - x\<bar> \<le> 1 / 2"
proof -
  have "of_int \<lfloor>x\<rfloor> \<le> x" "x < of_int \<lfloor>x\<rfloor> + 1" by linarith+
  then show ?thesis by (auto simp: round_even_def Let_def abs_le_iff)
qed

lemma round_even_int [simp]: "round_even (of_int i) = i"
  by (simp add: round_even_def)

lemma round64_half_ulp: "x \<noteq> 0 \<Longrightarrow> \<bar>round64 x - x\<bar> \<le> ulp x / 2"
proof -
  assume x: "x \<noteq> 0"
  define v where "v = ulp x"
  have v: "0 < v" by (simp add: v_def ulp_def)
  have "round64 x = of_int (round_even (x / v)) * v" using x by (simp add: round64_def v_def)
  moreover have "x = x / v * v" using v by simp
  ultimately have "round64 x - x = (of_int (round_even (x / v)) - x / v) * v"
    by (metis left_diff_distrib)
  then have "\<bar>round64 x - x\<bar> = \<bar>of_int (round_even (x / v)) - x / v\<bar> * v"
    using v by (simp add: abs_mult)
  also have "\<dots> \<le> 1 / 2 * v"
    by (intro mult_right_mono round_even_error) (use v in simp)
  finally show ?thesis by (simp add: v_def)
qed

text \<open>The relative error of rounding is at most \<open>2^-53\<close> for values that are not subnormal.\<close>

lemma round64_error:
  assumes "x \<noteq> 0" and "pow2 (- 1022) \<le> \<bar>x\<bar>"
  shows "\<bar>round64 x - x\<bar> \<le> \<bar>x\<bar> / 2 ^ 53"
proof -
  let ?b = "binade \<bar>x\<bar>"
  have b: "pow2 ?b \<le> \<bar>x\<bar>" "\<bar>x\<bar> < pow2 (?b + 1)" using binade_correct [of "\<bar>x\<bar>"] assms(1) by auto
  have "- 1022 \<le> ?b"
  proof (rule ccontr)
    assume "\<not> - 1022 \<le> ?b"
    then have "pow2 (?b + 1) \<le> pow2 (- 1022)" by (intro pow2_mono) simp
    with b(2) assms(2) show False by simp
  qed
  then have u: "ulp x = pow2 (?b - 52)" by (simp add: ulp_def)
  have "\<bar>round64 x - x\<bar> \<le> 1 / 2 * ulp x" using round64_half_ulp [OF assms(1)] by simp
  also have "\<dots> = pow2 ?b / 2 ^ 53"
    unfolding u pow2_powi by (simp add: power_int_diff)
  also have "\<dots> \<le> \<bar>x\<bar> / 2 ^ 53" using b(1) by simp
  finally show ?thesis .
qed

lemma round64_0 [simp]: "round64 0 = 0"
  by (simp add: round64_def)

lemma round64_on_grid: "x = of_int m * ulp x \<Longrightarrow> round64 x = x"
proof -
  assume x: "x = of_int m * ulp x"
  have u: "ulp x \<noteq> 0" by (simp add: ulp_def)
  from x u have "x / ulp x = of_int m" by (metis nonzero_mult_div_cancel_right)
  then show ?thesis using x by (simp add: round64_def)
qed

lemma pow2_strict_mono: "pow2 a < pow2 b \<Longrightarrow> a < b"
  using pow2_mono [of b a] by force

lemma binade_unique:
  assumes "pow2 e \<le> x" and "x < pow2 (e + 1)"
  shows "binade x = e"
proof -
  have x: "0 < x" using assms(1) pow2_pos [of e] by linarith
  have h: "pow2 e < pow2 (binade x + 1)" "pow2 (binade x) < pow2 (e + 1)"
    using assms binade_correct [OF x] by linarith+
  show ?thesis using h [THEN pow2_strict_mono] by simp
qed

text \<open>Half-integers (and integers) below \<open>2^51\<close> are represented exactly.\<close>

lemma round64_half:
  assumes "\<bar>k\<bar> < 2 ^ 52"
  shows "round64 (of_int k / 2) = of_int k / 2"
proof (cases "k = 0")
  case False
  let ?x = "of_int k / 2 :: rat"
  let ?b = "binade \<bar>?x\<bar>"
  have pos: "0 < \<bar>?x\<bar>" using False by simp
  have "\<bar>of_int k :: rat\<bar> < of_int (2 ^ 52)"
    using assms by (simp only: of_int_abs [symmetric] of_int_less_iff)
  then have "\<bar>?x\<bar> < pow2 51" by (simp add: pow2_def)
  moreover have "pow2 (- 1) \<le> \<bar>?x\<bar>"
  proof -
    have "1 \<le> \<bar>k\<bar>" using False by simp
    then have "1 \<le> \<bar>of_int k :: rat\<bar>" by (simp only: of_int_abs [symmetric] of_int_1_le_iff)
    then show ?thesis by (simp add: pow2_def)
  qed
  ultimately have "pow2 ?b < pow2 51" "pow2 (- 1) < pow2 (?b + 1)"
    using binade_correct [OF pos] by linarith+
  then have b: "?b < 51" "- 1 < ?b + 1" by (auto dest: pow2_strict_mono)
  then have u: "ulp ?x = pow2 (?b - 52)" by (simp add: ulp_def)
  have "pow2 (- 1) = pow2 (51 - ?b) * pow2 (?b - 52)" by (simp add: pow2_add [symmetric])
  moreover have "pow2 (51 - ?b) = of_int (2 ^ nat (51 - ?b))" using b by (simp add: pow2_def)
  ultimately have "of_int k / 2 = of_int (k * 2 ^ nat (51 - ?b)) * ulp ?x"
    unfolding u by (simp add: pow2_def [of "- 1"])
  then show ?thesis by (rule round64_on_grid)
qed simp

text \<open>A value close enough to an integer is rounded to it.\<close>

lemma round_even_near: "\<bar>x - of_int m\<bar> < 1 / 2 \<Longrightarrow> round_even x = m"
proof -
  assume d: "\<bar>x - of_int m\<bar> < 1 / 2"
  show ?thesis
  proof (cases "of_int m \<le> x")
    case True
    then have "\<lfloor>x\<rfloor> = m" using d by (intro floor_unique) auto
    then show ?thesis using d True by (simp add: round_even_def)
  next
    case False
    then have "\<lfloor>x\<rfloor> = m - 1" using d by (intro floor_unique) auto
    then show ?thesis using d False by (auto simp: round_even_def Let_def)
  qed
qed

lemma round64_near_int:
  assumes "pow2 e < of_int i" and "of_int i < pow2 (e + 1)" and "0 \<le> e" and "e \<le> 52"
    and "\<bar>y - of_int i\<bar> < pow2 (e - 53)"
  shows "round64 y = of_int i"
proof -
  have small: "pow2 (e - 53) \<le> pow2 (- 1)" using assms(4) by (intro pow2_mono) simp
  have "2 ^ nat e < i" "i < 2 ^ nat (e + 1)"
    using assms(1-3) by (simp_all add: pow2_def)
  then have "2 ^ nat e + 1 \<le> i" "i + 1 \<le> 2 ^ nat (e + 1)" by simp_all
  then have "of_int (2 ^ nat e + 1) \<le> (of_int i :: rat)" "of_int (i + 1) \<le> (of_int (2 ^ nat (e + 1)) :: rat)"
    by (simp_all only: of_int_le_iff)
  then have i: "pow2 e + 1 \<le> of_int i" "of_int i + 1 \<le> pow2 (e + 1)"
    using assms(3) by (simp_all add: pow2_def)
  have "pow2 (- 1) = 1 / 2" by (simp add: pow2_def)
  then have y: "pow2 e \<le> y" "y < pow2 (e + 1)" using i assms(5) small by linarith+
  then have pos: "0 < y" using pow2_pos [of e] by linarith
  have u: "ulp y = pow2 (e - 52)"
    using binade_unique [OF y] pos assms(3) by (simp add: ulp_def)
  have grid: "of_int i = of_int (i * 2 ^ nat (52 - e)) * ulp y"
  proof -
    have "pow2 (52 - e) * pow2 (e - 52) = 1" by (simp add: pow2_add [symmetric] pow2_nat [of 0, simplified])
    moreover have "pow2 (52 - e) = of_int (2 ^ nat (52 - e))" using assms(4) by (simp add: pow2_def)
    ultimately show ?thesis unfolding u by simp
  qed
  define m where "m = i * 2 ^ nat (52 - e)"
  define v where "v = ulp y"
  have v: "0 < v" by (simp add: v_def u)
  have g: "of_int i = of_int m * v" using grid by (simp only: m_def v_def)
  have "pow2 (e - 52) = pow2 1 * pow2 (e - 53)" by (simp add: pow2_add [symmetric])
  then have "2 * pow2 (e - 53) = v" by (simp add: v_def u pow2_def [of 1])
  then have d: "\<bar>y - of_int i\<bar> < v / 2" using assms(5) by linarith
  have "y / v - of_int m = (y - of_int i) / v"
    unfolding g using v by (simp add: diff_divide_distrib)
  then have "\<bar>y / v - of_int m\<bar> = \<bar>y - of_int i\<bar> / v" using v by simp
  also have "\<dots> < 1 / 2" using d v by (simp add: divide_less_eq)
  finally have "round_even (y / v) = m" by (rule round_even_near)
  then have "round64 y = of_int m * v" using pos by (simp add: round64_def v_def)
  then show ?thesis using g by simp
qed

section \<open>Operations\<close>

text \<open>Arithmetic with a positive finite constant is all the program does.\<close>

fun float_mul :: "float64 \<Rightarrow> rat \<Rightarrow> float64" where
  "float_mul (Fin x) c = to_float (x * c)"
| "float_mul f c = f"

fun float_div :: "float64 \<Rightarrow> rat \<Rightarrow> float64" where
  "float_div (Fin x) c = to_float (x / c)"
| "float_div f c = f"

fun float_add :: "float64 \<Rightarrow> rat \<Rightarrow> float64" where
  "float_add (Fin x) c = to_float (x + c)"
| "float_add f c = f"

fun float_floor :: "float64 \<Rightarrow> float64" where
  "float_floor (Fin x) = Fin (of_int \<lfloor>x\<rfloor>)"
| "float_floor f = f"

definition float_of_int :: "int \<Rightarrow> float64" where
  "float_of_int i = to_float (of_int i)"

definition trunc_rat :: "rat \<Rightarrow> int" where
  "trunc_rat x = (if 0 \<le> x then \<lfloor>x\<rfloor> else - \<lfloor>- x\<rfloor>)"

lemma trunc_rat_int [simp]: "trunc_rat (of_int i) = i"
  by (simp add: trunc_rat_def)

text \<open>The conversion \<open>int(f)\<close>; Go leaves values outside the range to the implementation, the
  one here is that of amd64.\<close>

fun int_of_float :: "float64 \<Rightarrow> int" where
  "int_of_float (Fin x) = (if in_int64 (trunc_rat x) then trunc_rat x else min_int64)"
| "int_of_float _ = min_int64"

section \<open>Parsing\<close>

text \<open>Decimal numbers; the hexadecimal form and digit separators of Go's syntax are left out.\<close>

definition parse_sign :: "string \<Rightarrow> bool \<times> string" where
  "parse_sign s =
     (case s of
        [] \<Rightarrow> (False, s)
      | c # r \<Rightarrow> if c = CHR ''-'' then (True, r) else if c = CHR ''+'' then (False, r) else (False, s))"

definition parse_exponent :: "string \<Rightarrow> int option" where
  "parse_exponent s =
     (case s of
        [] \<Rightarrow> Some 0
      | c # r \<Rightarrow>
          if c = CHR ''e'' \<or> c = CHR ''E''
          then (let (neg, ds) = parse_sign r
                in if ds \<noteq> [] \<and> list_all is_digit ds
                   then Some (if neg then - int (digits_value ds) else int (digits_value ds))
                   else None)
          else None)"

definition pow10 :: "int \<Rightarrow> rat" where
  "pow10 e = (if 0 \<le> e then 10 ^ nat e else 1 / 10 ^ nat (- e))"

definition parse_fraction :: "string \<Rightarrow> string \<times> string" where
  "parse_fraction s =
     (case s of
        [] \<Rightarrow> ([], s)
      | c # r \<Rightarrow> if c = CHR ''.'' then (takeWhile is_digit r, dropWhile is_digit r) else ([], s))"

definition parse_decimal :: "string \<Rightarrow> rat option" where
  "parse_decimal s =
     (let (neg, s1) = parse_sign s;
          whole = takeWhile is_digit s1;
          (frac, s2) = parse_fraction (dropWhile is_digit s1)
      in if whole = [] \<and> frac = [] then None
         else case parse_exponent s2 of
                None \<Rightarrow> None
              | Some e \<Rightarrow>
                  (let m = of_nat (digits_value (whole @ frac)) * pow10 (e - int (length frac))
                   in Some (if neg then - m else m)))"

definition special_float :: "string \<Rightarrow> float64 option" where
  "special_float s =
     (let t = map upper s
      in if t \<in> {''INF'', ''INFINITY'', ''+INF'', ''+INFINITY''} then Some PosInf
         else if t \<in> {''-INF'', ''-INFINITY''} then Some NegInf
         else if t = ''NAN'' then Some NaN else None)"

definition ParseFloat :: "string \<Rightarrow> float64 \<times> num_error option" where
  "ParseFloat s =
     (case special_float s of
        Some f \<Rightarrow> (f, None)
      | None \<Rightarrow>
          (case parse_decimal s of
             None \<Rightarrow> (Fin 0, Some ErrSyntax)
           | Some x \<Rightarrow>
               (case to_float x of
                  Fin y \<Rightarrow> (Fin y, None)
                | f \<Rightarrow> (f, Some ErrRange))))"

text \<open>A JSON number decoded into a \<open>float64\<close>.\<close>

definition dec_float :: "float64 decoder" where
  "dec_float v old =
     (case v of
        JNum x \<Rightarrow> (if snd (ParseFloat x) = None then Some (fst (ParseFloat x)) else None)
      | JNull \<Rightarrow> Some old
      | _ \<Rightarrow> None)"

section \<open>Printing\<close>

text \<open>The shortest decimal that rounds to the value, without an exponent: the format that JSON
  uses for magnitudes from \<open>10^-6\<close> to \<open>10^21\<close>.  For magnitudes below \<open>2^53\<close> the shortest
  one is the one with the fewest places.\<close>

definition places_ok :: "rat \<Rightarrow> nat \<Rightarrow> bool" where
  "places_ok x j \<longleftrightarrow> round64 (of_int (round_even (x * 10 ^ j)) / 10 ^ j) = x"

definition decimal_places :: "rat \<Rightarrow> nat" where
  "decimal_places x = (case find (places_ok x) [0..<25] of None \<Rightarrow> 25 | Some j \<Rightarrow> j)"

definition format_decimal :: "int \<Rightarrow> nat \<Rightarrow> string" where
  "format_decimal m j =
     (if m < 0 then ''-'' else []) @ nat_digits (nat \<bar>m\<bar> div 10 ^ j)
     @ (if j = 0 then [] else CHR ''.'' # pad_nat j (nat \<bar>m\<bar> mod 10 ^ j))"

definition format_float :: "rat \<Rightarrow> string" where
  "format_float x =
     (let j = decimal_places x in format_decimal (round_even (x * 10 ^ j)) j)"

section \<open>Exactness of the roundings that the program relies on\<close>

text \<open>A whole number of seconds in minutes, rounded half up.\<close>

lemma div60_error:
  assumes "\<bar>d\<bar> \<le> 2 ^ 40"
  shows "\<bar>round64 (of_int d / 60) - of_int d / 60\<bar> \<le> 1 / 4096"
proof (cases "d = 0")
  case False
  let ?x = "of_int d / 60 :: rat"
  have D: "1 \<le> \<bar>of_int d :: rat\<bar>" "\<bar>of_int d :: rat\<bar> \<le> 2 ^ 40"
  proof -
    have "1 \<le> \<bar>d\<bar>" using False by simp
    then show "1 \<le> \<bar>of_int d :: rat\<bar>" by (simp only: of_int_abs [symmetric] of_int_1_le_iff)
    have "of_int \<bar>d\<bar> \<le> (of_int (2 ^ 40) :: rat)" using assms by (simp only: of_int_le_iff)
    then show "\<bar>of_int d :: rat\<bar> \<le> 2 ^ 40" by simp
  qed
  have "pow2 (- 1022) \<le> pow2 (- 6)" by (rule pow2_mono) simp
  also have "pow2 (- 6) \<le> \<bar>?x\<bar>" using D(1) by (simp add: pow2_def)
  finally have "\<bar>round64 ?x - ?x\<bar> \<le> \<bar>?x\<bar> / 2 ^ 53" using False by (intro round64_error) simp_all
  also have "\<dots> \<le> 1 / 4096" using D(2) by simp
  finally show ?thesis .
qed simp

text \<open>Rounding an intermediate result moves it by little.\<close>

lemma round64_small_error:
  assumes "1 / 100 \<le> \<bar>y\<bar>" and "\<bar>y\<bar> \<le> 2 ^ 40"
  shows "\<bar>round64 y - y\<bar> \<le> 1 / 4096"
proof -
  have "pow2 (- 1022) \<le> pow2 (- 7)" by (rule pow2_mono) simp
  also have "pow2 (- 7) \<le> \<bar>y\<bar>" using assms(1) by (simp add: pow2_def)
  finally have "\<bar>round64 y - y\<bar> \<le> \<bar>y\<bar> / 2 ^ 53" using assms(1) by (intro round64_error) auto
  also have "\<dots> \<le> 1 / 4096" using assms(2) by simp
  finally show ?thesis .
qed

text \<open>If \<open>60\<close> does not divide \<open>n\<close>, then \<open>n / 60\<close> keeps a distance of \<open>1/60\<close> from the integers.\<close>

lemma floor_near_div60:
  assumes "n mod 60 \<noteq> (0 :: int)" and "\<bar>z - of_int n / 60\<bar> < (1 / 60 :: rat)"
  shows "\<lfloor>z\<rfloor> = n div 60"
proof -
  define q where "q = n div 60"
  have "60 * q + 1 \<le> n" "n + 1 \<le> 60 * q + 60"
    using assms(1) unfolding q_def by presburger+
  then have "of_int (60 * q + 1) \<le> (of_int n :: rat)" "of_int (n + 1) \<le> (of_int (60 * q + 60) :: rat)"
    by (simp_all only: of_int_le_iff)
  then have "of_int q + 1 / 60 \<le> of_int n / (60 :: rat)" "of_int n / 60 + 1 / 60 \<le> of_int q + (1 :: rat)"
    by simp_all
  then have "of_int q \<le> z" "z < of_int q + 1" using assms(2) by linarith+
  then have "\<lfloor>z\<rfloor> = q" by (intro floor_unique) auto
  then show ?thesis by (simp add: q_def)
qed

lemma abs_bounds_aux:
  fixes y N :: rat
  assumes "\<bar>y - N / 60\<bar> \<le> 1 / 4096" and "1 \<le> \<bar>N\<bar>" and "\<bar>N\<bar> \<le> 2 ^ 41"
  shows "1 / 100 \<le> \<bar>y\<bar>" and "\<bar>y\<bar> \<le> 2 ^ 40"
proof -
  have "\<bar>N\<bar> / 60 - \<bar>y\<bar> \<le> \<bar>y - N / 60\<bar>" "\<bar>y\<bar> - \<bar>N\<bar> / 60 \<le> \<bar>y - N / 60\<bar>"
    using abs_triangle_ineq2 [of "N / 60" y] abs_triangle_ineq2 [of y "N / 60"]
    by (simp_all add: abs_minus_commute)
  then have "\<bar>N\<bar> / 60 - 1 / 4096 \<le> \<bar>y\<bar>" "\<bar>y\<bar> \<le> \<bar>N\<bar> / 60 + 1 / 4096"
    using assms(1) by simp_all
  moreover have "1 / 60 \<le> \<bar>N\<bar> / 60" "\<bar>N\<bar> / 60 \<le> 36650387593" using assms(2,3) by simp_all
  ultimately show "1 / 100 \<le> \<bar>y\<bar>" "\<bar>y\<bar> \<le> 2 ^ 40" by simp_all
qed

lemma minutes_exact:
  assumes "\<bar>d\<bar> \<le> 2 ^ 40"
  shows "\<lfloor>round64 (round64 (of_int d / 60) + 1 / 2)\<rfloor> = (d + 30) div 60"
proof (cases "(d + 30) mod 60 = 0")
  case True
  define k where "k = (d + 30) div 60"
  have d: "d = 60 * k - 30" using mult_div_mod_eq [of 60 "d + 30"] True unfolding k_def by linarith
  have x: "of_int d / 60 = (of_int (2 * k - 1) / 2 :: rat)" by (simp add: d field_simps)
  have p: "(2::int) ^ 40 = 1099511627776" "(2::int) ^ 52 = 4503599627370496" by simp_all
  have "\<bar>60 * k - 30\<bar> \<le> 1099511627776" using assms unfolding d p .
  then have "\<bar>2 * k - 1\<bar> < 4503599627370496 \<and> \<bar>2 * k\<bar> < 4503599627370496" by linarith
  then have k: "\<bar>2 * k - 1\<bar> < 2 ^ 52" "\<bar>2 * k\<bar> < 2 ^ 52" unfolding p by simp_all
  have "round64 (of_int d / 60) + 1 / 2 = of_int (2 * k) / 2"
    unfolding x round64_half [OF k(1)] by (simp add: field_simps)
  then show ?thesis using round64_half [OF k(2)] by (simp add: k_def)
next
  case False
  define y where "y = round64 (of_int d / 60) + 1 / 2"
  have e1: "\<bar>y - of_int (d + 30) / 60\<bar> \<le> 1 / 4096"
    using div60_error [OF assms] by (simp add: y_def add_divide_distrib)
  have n: "1 \<le> \<bar>of_int (d + 30) :: rat\<bar>" "\<bar>of_int (d + 30) :: rat\<bar> \<le> 2 ^ 41"
  proof -
    have "1 \<le> \<bar>d + 30\<bar>" using False by (cases "d = - 30") auto
    then show "1 \<le> \<bar>of_int (d + 30) :: rat\<bar>" by (simp only: of_int_abs [symmetric] of_int_1_le_iff)
    have "\<bar>d + 30\<bar> \<le> 2 ^ 41" using assms by auto
    then have "of_int \<bar>d + 30\<bar> \<le> (of_int (2 ^ 41) :: rat)" by (simp only: of_int_le_iff)
    then show "\<bar>of_int (d + 30) :: rat\<bar> \<le> 2 ^ 41" by simp
  qed
  have "1 / 100 \<le> \<bar>y\<bar>" "\<bar>y\<bar> \<le> 2 ^ 40"
    using abs_bounds_aux [OF e1 n] by simp_all
  then have "\<bar>round64 y - y\<bar> \<le> 1 / 4096" by (rule round64_small_error)
  then have "\<bar>round64 y - of_int (d + 30) / 60\<bar> < 1 / 60" using e1 by linarith
  from floor_near_div60 [OF False this] show ?thesis by (simp add: y_def)
qed

text \<open>Degrees with six places, times \<open>10^6\<close>, where the product lies in the upper part of its
  binade.\<close>

lemma microdegrees_exact:
  assumes "(i \<in> {8388609..15999999}) \<or> (i \<in> {33554433..63999999})"
  shows "round64 (round64 (of_int i / 1000000) * 1000000) = of_int i"
proof -
  let ?x = "of_int i / 1000000 :: rat"
  obtain b :: int where b: "(b = 3 \<and> i \<in> {8388609..15999999}) \<or> (b = 5 \<and> i \<in> {33554433..63999999})"
    using assms by blast
  have i: "of_int i \<in> {8388609..15999999 :: rat} \<and> b = 3 \<or> of_int i \<in> {33554433..63999999 :: rat} \<and> b = 5"
    using b by auto
  have xb: "pow2 b \<le> ?x" "?x < pow2 (b + 1)" using i by (auto simp: pow2_def)
  have x: "0 < ?x" using xb(1) pow2_pos [of b] by linarith
  have u: "ulp ?x = pow2 (b - 52)" using binade_unique [OF xb] b x by (auto simp: ulp_def)
  have "pow2 (b - 52) = pow2 (b - 53) * 2" using pow2_add [of "b - 53" 1] by (simp add: pow2_def [of 1])
  then have "\<bar>round64 ?x - ?x\<bar> \<le> pow2 (b - 53)"
    using round64_half_ulp [of ?x] x u by simp
  then have "\<bar>round64 ?x * 1000000 - of_int i\<bar> \<le> 1000000 * pow2 (b - 53)" by linarith
  also have "\<dots> < 2 ^ 20 * pow2 (b - 53)" by (intro mult_strict_right_mono) auto
  also have "\<dots> = pow2 (b + 20 - 53)"
    using pow2_add [of 20 "b - 53"] by (simp add: pow2_def [of 20])
  finally have near: "\<bar>round64 ?x * 1000000 - of_int i\<bar> < pow2 (b + 20 - 53)" .
  show ?thesis
    by (rule round64_near_int [OF _ _ _ _ near]) (use i b in \<open>auto simp: pow2_def\<close>)
qed

section \<open>Printed decimals read back\<close>

lemma digits_value_append:
  "digits_value (s @ t) = digits_value s * 10 ^ length t + digits_value t"
proof (induction t rule: rev_induct)
  case (snoc c t)
  have "digits_value (s @ t @ [c]) = 10 * digits_value (s @ t) + digit_val c"
    using digits_value_snoc [of "s @ t" c] by simp
  then show ?case by (simp add: snoc digits_value_snoc algebra_simps)
qed (simp add: digits_value_def)

lemma length_nat_digits: "n < 10 ^ Suc k \<Longrightarrow> length (nat_digits n) \<le> Suc k"
proof (induction k arbitrary: n)
  case 0
  then show ?case by (simp add: nat_digits_small)
next
  case (Suc k)
  show ?case
  proof (cases "n < 10")
    case False
    have "n div 10 < 10 ^ Suc k" using Suc.prems by (simp add: less_mult_imp_div_less)
    then show ?thesis using Suc.IH False by (simp add: nat_digits_ge)
  qed (simp add: nat_digits_small)
qed

lemma length_pad_nat: "n < 10 ^ j \<Longrightarrow> 0 < j \<Longrightarrow> length (pad_nat j n) = j"
  using length_nat_digits [of n "j - 1"] by (cases j) (simp_all add: pad_nat_def)

lemma takeWhile_digits:
  assumes "list_all is_digit ds" and "rest = [] \<or> \<not> is_digit (hd rest)"
  shows "takeWhile is_digit (ds @ rest) = ds" and "dropWhile is_digit (ds @ rest) = rest"
  using assms by (induction ds) (cases rest; simp)+

lemma parse_sign_digits: "ds \<noteq> [] \<Longrightarrow> list_all is_digit ds \<Longrightarrow> parse_sign (ds @ rest) = (False, ds @ rest)"
  by (cases ds) (auto simp: parse_sign_def is_digit_def byte_of_def)

lemma parse_unsigned:
  "parse_decimal (sg @ nat_digits (n div 10 ^ j)
       @ (if j = 0 then [] else CHR ''.'' # pad_nat j (n mod 10 ^ j)))
     = Some ((if neg then - 1 else 1) * (of_nat n / 10 ^ j))"
  if sg: "(sg = [] \<and> \<not> neg) \<or> (sg = ''-'' \<and> neg)"
proof -
  let ?w = "nat_digits (n div 10 ^ j)"
  let ?f = "if j = 0 then [] else pad_nat j (n mod 10 ^ j)"
  let ?r = "if j = 0 then [] else CHR ''.'' # pad_nat j (n mod 10 ^ j)"
  have w: "list_all is_digit ?w" by (rule nat_digits_are_digits)
  have dot: "\<not> is_digit CHR ''.''" by (simp add: is_digit_def byte_of_def)
  have s: "parse_sign (sg @ ?w @ ?r) = (neg, ?w @ ?r)"
  proof (cases neg)
    case True
    then show ?thesis using sg by (simp add: parse_sign_def)
  next
    case False
    then show ?thesis using sg parse_sign_digits [OF nat_digits_nonempty w] by simp
  qed
  have t: "takeWhile is_digit (?w @ ?r) = ?w" "dropWhile is_digit (?w @ ?r) = ?r"
    using takeWhile_digits [OF w, of ?r] dot by (auto split: if_splits)
  have f: "parse_fraction ?r = (?f, [])"
    using takeWhile_digits [OF pad_nat_digits, of "[]"] by (simp add: parse_fraction_def)
  have len: "length ?f = j" using length_pad_nat [of "n mod 10 ^ j" j] by simp
  have fv: "digits_value ?f = n mod 10 ^ j"
    by (cases "j = 0") (simp add: digits_value_def, simp)
  have v: "digits_value (?w @ ?f) = n"
    unfolding digits_value_append len fv by (simp add: mult.commute)
  have p: "pow10 (0 - int j) = 1 / 10 ^ j" by (cases "j = 0") (simp_all add: pow10_def)
  have e: "parse_exponent [] = Some 0" by (simp add: parse_exponent_def)
  show ?thesis
    unfolding parse_decimal_def s Let_def prod.case t f e option.case len v p by simp
qed

lemma parse_format_decimal: "parse_decimal (format_decimal m j) = Some (of_int m / 10 ^ j)"
proof -
  have m: "of_nat (nat \<bar>m\<bar>) = (of_int \<bar>m\<bar> :: rat)" by simp
  show ?thesis
    unfolding format_decimal_def
    by (subst parse_unsigned [where neg = "m < 0"]) (auto simp: m)
qed

lemma decimal_places_le:
  assumes "places_ok x n" and "n < 25"
  shows "decimal_places x \<le> n" and "places_ok x (decimal_places x)"
proof -
  have "find (places_ok x) [0..<25] \<noteq> None"
    using assms by (auto simp: find_None_iff)
  then obtain j where j: "find (places_ok x) [0..<25] = Some j" by auto
  then obtain i where i: "i < 25" "places_ok x ([0..<25] ! i)" "j = [0..<25] ! i"
      "\<And>k. k < i \<Longrightarrow> \<not> places_ok x ([0..<25] ! k)"
    by (auto simp: find_Some_iff)
  have "\<not> n < i" using i(1) i(4) [of n] assms by auto
  with i(1-3) j show "decimal_places x \<le> n" "places_ok x (decimal_places x)"
    by (simp_all add: decimal_places_def)
qed

lemma int_of_close:
  fixes a b :: int
  assumes "\<bar>of_int a - of_int b :: rat\<bar> < 1"
  shows "a = b"
proof -
  have "of_int \<bar>a - b\<bar> < (of_int 1 :: rat)" using assms by simp
  then have "\<bar>a - b\<bar> < 1" by (simp only: of_int_less_iff)
  then show ?thesis by simp
qed

lemma normal_of_quotient:
  assumes "m \<noteq> 0" and "j \<le> 6"
  shows "pow2 (- 1022) \<le> \<bar>of_int m / 10 ^ j\<bar>"
proof -
  have "1 \<le> \<bar>m\<bar>" using assms(1) by simp
  then have m: "1 \<le> \<bar>of_int m :: rat\<bar>" by (simp only: of_int_abs [symmetric] of_int_1_le_iff)
  have "(10::rat) ^ j \<le> 10 ^ 6" by (rule power_increasing) (use assms(2) in simp_all)
  then have "1 / 10 ^ 6 \<le> \<bar>of_int m :: rat\<bar> / 10 ^ j" using m by (intro frac_le) simp_all
  moreover have "pow2 (- 1022) \<le> pow2 (- 20)" by (rule pow2_mono) simp
  moreover have "pow2 (- 20) \<le> 1 / 10 ^ 6" by (simp add: pow2_def)
  ultimately have "pow2 (- 1022) \<le> \<bar>of_int m\<bar> / 10 ^ j" by linarith
  then show ?thesis by (simp add: abs_divide)
qed

lemma round64_rel:
  assumes "m \<noteq> 0" and "j \<le> 6"
  shows "\<bar>round64 (of_int m / 10 ^ j) - of_int m / 10 ^ j\<bar> \<le> \<bar>of_int m / 10 ^ j\<bar> / 2 ^ 53"
  using round64_error [OF _ normal_of_quotient [OF assms]] assms(1) by simp

lemma close_quotients:
  fixes x y q :: rat
  assumes "\<bar>x - q\<bar> \<le> \<bar>q\<bar> / 2 ^ 53" and "\<bar>x - y\<bar> \<le> \<bar>y\<bar> / 2 ^ 53"
    and "\<bar>i\<bar> \<le> 2 ^ 40" and "q * 10 ^ 6 = i"
  shows "\<bar>y - q\<bar> * 10 ^ 6 < 1"
proof -
  have p: "(2::rat) ^ 53 = 9007199254740992" "(2::rat) ^ 40 = 1099511627776" "(10::rat) ^ 6 = 1000000"
    by simp_all
  have q: "\<bar>q\<bar> * 1000000 \<le> 1099511627776" using assms(3,4) unfolding p by (auto simp: abs_mult)
  have "\<bar>x\<bar> \<le> 2 * \<bar>q\<bar>" using assms(1) unfolding p by linarith
  moreover have "\<bar>y\<bar> \<le> 2 * \<bar>x\<bar>" using assms(2) unfolding p by linarith
  ultimately have "\<bar>y - q\<bar> \<le> 5 * \<bar>q\<bar> / 9007199254740992"
    using assms(1,2) unfolding p by linarith
  then have "\<bar>y - q\<bar> * 1000000 \<le> 5 * (\<bar>q\<bar> * 1000000) / 9007199254740992" by simp
  also have "\<dots> \<le> 5 * 1099511627776 / 9007199254740992" using q by simp
  finally show ?thesis unfolding p by simp
qed

text \<open>A number of micro-units below \<open>2^40\<close> is printed as exactly that decimal.\<close>

lemma format_micro:
  assumes "\<bar>i\<bar> \<le> 2 ^ 40"
  shows "parse_decimal (format_float (round64 (of_int i / 10 ^ 6))) = Some (of_int i / 10 ^ 6)"
proof (cases "i = 0")
  case True
  have "places_ok 0 0" by (simp add: places_ok_def round_even_def)
  from decimal_places_le [OF this] True show ?thesis
    by (simp add: format_float_def parse_format_decimal round_even_def)
next
  case False
  let ?q = "of_int i / 10 ^ 6 :: rat"
  define x where "x = round64 ?q"
  have "of_int \<bar>i\<bar> \<le> (of_int (2 ^ 40) :: rat)" using assms by (simp only: of_int_le_iff)
  then have I: "\<bar>of_int i :: rat\<bar> \<le> 2 ^ 40" by simp
  have ex: "\<bar>x - ?q\<bar> \<le> \<bar>?q\<bar> / 2 ^ 53" unfolding x_def by (rule round64_rel [OF False]) simp
  have "\<bar>x * 10 ^ 6 - of_int i\<bar> = \<bar>x - ?q\<bar> * 10 ^ 6"
    using abs_mult [of "x - ?q" "10 ^ 6"] by (simp add: left_diff_distrib)
  also have "\<dots> \<le> \<bar>of_int i\<bar> / 2 ^ 53" using ex by (simp add: abs_divide)
  also have "\<dots> < 1 / 2" using I by simp
  finally have "round_even (x * 10 ^ 6) = i" by (rule round_even_near)
  then have "places_ok x 6" by (simp add: places_ok_def x_def)
  note j = decimal_places_le [OF this]
  define j where "j = decimal_places x"
  define m where "m = round_even (x * 10 ^ j)"
  let ?y = "of_int m / 10 ^ j :: rat"
  have j6: "j \<le> 6" using j(1) by (simp add: j_def)
  have y: "round64 ?y = x" using j(2) by (simp add: places_ok_def j_def m_def)
  have "\<bar>?q\<bar> > 0" using False by simp
  then have "x \<noteq> 0" using ex by auto
  then have m0: "m \<noteq> 0" using y by auto
  have ey: "\<bar>x - ?y\<bar> \<le> \<bar>?y\<bar> / 2 ^ 53" using round64_rel [OF m0 j6] unfolding y .
  have "\<bar>?y - ?q\<bar> * 10 ^ 6 < 1"
    using ex ey I by (rule close_quotients) simp
  moreover have "\<bar>?y - ?q\<bar> * 10 ^ 6 = \<bar>of_int (m * 10 ^ (6 - j)) - of_int i\<bar>"
  proof -
    have "(10::rat) ^ 6 = 10 ^ (6 - j) * 10 ^ j" using j6 by (simp only: power_add [symmetric] le_add_diff_inverse2)
    then have "?y * 10 ^ 6 = ?y * (10 ^ (6 - j) * 10 ^ j)" by (rule arg_cong)
    then have "?y * 10 ^ 6 = of_int (m * 10 ^ (6 - j))" by simp
    then have "(?y - ?q) * 10 ^ 6 = of_int (m * 10 ^ (6 - j)) - of_int i"
      by (simp add: left_diff_distrib)
    then show ?thesis by (metis abs_mult abs_numeral power_abs)
  qed
  ultimately have "m * 10 ^ (6 - j) = i" by (intro int_of_close) simp
  then have "of_int i = (of_int m * 10 ^ (6 - j) :: rat)" by auto
  moreover have "(10::rat) ^ 6 = 10 ^ (6 - j) * 10 ^ j" using j6 by (simp only: power_add [symmetric] le_add_diff_inverse2)
  ultimately have "?q = of_int m * 10 ^ (6 - j) / (10 ^ (6 - j) * 10 ^ j)" by (simp only:)
  then have "?y = ?q" by simp
  then show ?thesis
    unfolding format_float_def x_def [symmetric] Let_def j_def [symmetric] m_def [symmetric]
    by (simp add: parse_format_decimal)
qed

section \<open>Values that stay finite\<close>

lemma to_float_finite:
  assumes "x = 0 \<or> 1 / 10 ^ 7 \<le> \<bar>x\<bar>" and "\<bar>x\<bar> \<le> 2 ^ 100"
  shows "to_float x = Fin (round64 x)" and "\<bar>round64 x\<bar> \<le> 2 * \<bar>x\<bar>"
proof -
  have r: "\<bar>round64 x\<bar> \<le> 2 * \<bar>x\<bar>"
  proof (cases "x = 0")
    case False
    have "pow2 (- 1022) \<le> pow2 (- 24)" by (rule pow2_mono) simp
    also have "pow2 (- 24) \<le> 1 / 10 ^ 7" by (simp add: pow2_def)
    also have "\<dots> \<le> \<bar>x\<bar>" using assms(1) False by simp
    finally have "\<bar>round64 x - x\<bar> \<le> \<bar>x\<bar> / 2 ^ 53" using False by (intro round64_error)
    moreover have "\<bar>x\<bar> / 2 ^ 53 \<le> \<bar>x\<bar>" by (simp add: divide_le_eq mult_le_cancel_left1)
    ultimately show ?thesis by linarith
  qed simp
  show "\<bar>round64 x\<bar> \<le> 2 * \<bar>x\<bar>" by (rule r)
  have "2 * \<bar>x\<bar> \<le> 2 * 2 ^ 100" using assms(2) by simp
  also have "\<dots> = pow2 101" by (simp add: pow2_def)
  also have "\<dots> < pow2 1024"
  proof -
    have "pow2 101 * 1 < pow2 101 * pow2 923" by (intro mult_strict_left_mono) (simp_all add: pow2_def)
    then show ?thesis by (simp add: pow2_add [symmetric])
  qed
  finally have "\<bar>round64 x\<bar> < pow2 1024" using r by linarith
  then show "to_float x = Fin (round64 x)" by (simp add: to_float_def Let_def abs_less_iff)
qed

lemma float_of_int_exact:
  assumes "\<bar>i\<bar> \<le> 2 ^ 50"
  shows "float_of_int i = Fin (of_int i)"
proof -
  have "of_int \<bar>i\<bar> \<le> (of_int (2 ^ 50) :: rat)" using assms by (simp only: of_int_le_iff)
  then have I: "\<bar>of_int i :: rat\<bar> \<le> 2 ^ 50" by simp
  have "of_int i = (0 :: rat) \<or> 1 \<le> \<bar>of_int i :: rat\<bar>"
  proof (cases "i = 0")
    case False
    then have "1 \<le> \<bar>i\<bar>" by simp
    then have "1 \<le> \<bar>of_int i :: rat\<bar>" by (simp only: of_int_abs [symmetric] of_int_1_le_iff)
    then show ?thesis ..
  qed simp
  then have "to_float (of_int i) = Fin (round64 (of_int i))"
    using I by (intro to_float_finite) auto
  moreover have "\<bar>2 * i\<bar> < 2 ^ 52" using assms by simp
  from round64_half [OF this] have "round64 (of_int i) = of_int i" by simp
  ultimately show ?thesis by (simp add: float_of_int_def)
qed

lemma parse_decimal_None:
  assumes "parse_sign s = (b, c # r)" and "\<not> is_digit c" and "c \<noteq> CHR ''.''"
  shows "parse_decimal s = None"
  using assms by (simp add: parse_decimal_def parse_fraction_def)

lemma upper_plain:
  "is_digit c \<or> c = CHR ''.'' \<or> c = CHR ''-'' \<or> c = CHR ''+'' \<Longrightarrow>
     upper c \<noteq> CHR ''I'' \<and> upper c \<noteq> CHR ''N''"
  by (auto simp: upper_def is_digit_def byte_of_def)

lemma upper_sign:
  "upper c = CHR ''+'' \<Longrightarrow> c = CHR ''+''" "upper c = CHR ''-'' \<Longrightarrow> c = CHR ''-''"
proof -
  have "65 \<le> byte_of (upper c)" if "upper c \<noteq> c"
    using that by (auto simp: upper_def split: if_splits)
  then show "upper c = CHR ''+'' \<Longrightarrow> c = CHR ''+''" "upper c = CHR ''-'' \<Longrightarrow> c = CHR ''-''"
    by (cases "upper c = c"; force simp: byte_of_def)+
qed

lemma special_not_decimal: "special_float s \<noteq> None \<Longrightarrow> parse_decimal s = None"
proof -
  assume "special_float s \<noteq> None"
  then have "map upper s \<in> {''INF'', ''INFINITY'', ''+INF'', ''+INFINITY'', ''-INF'', ''-INFINITY'', ''NAN''}"
    by (auto simp: special_float_def Let_def split: if_splits)
  then obtain c r where s: "s = c # r" and
    cr: "upper c = CHR ''I'' \<or> upper c = CHR ''N''
       \<or> (upper c = CHR ''+'' \<or> upper c = CHR ''-'') \<and> (\<exists>d q. r = d # q \<and> upper d = CHR ''I'')"
    by (cases s; cases "tl s") auto
  show ?thesis
  proof (cases "upper c = CHR ''I'' \<or> upper c = CHR ''N''")
    case True
    then have "parse_sign s = (False, c # r)" and "\<not> is_digit c" "c \<noteq> CHR ''.''"
      using upper_plain [of c] by (auto simp: parse_sign_def s)
    then show ?thesis by (rule parse_decimal_None)
  next
    case False
    then obtain d q where r: "r = d # q" "upper d = CHR ''I''" and c: "c = CHR ''+'' \<or> c = CHR ''-''"
      using cr upper_sign [of c] by auto
    have "parse_sign s = (c = CHR ''-'', d # q)" using c by (auto simp: parse_sign_def s r)
    then show ?thesis by (rule parse_decimal_None) (use upper_plain [of d] r in auto)
  qed
qed

lemma ParseFloat_decimal:
  assumes "parse_decimal s = Some x" and "to_float x = Fin y"
  shows "ParseFloat s = (Fin y, None)"
proof -
  have "special_float s = None" using special_not_decimal [of s] assms(1) by (cases "special_float s") auto
  then show ?thesis using assms by (simp add: ParseFloat_def)
qed

section \<open>Printed decimals are JSON numbers\<close>

lemma nat_digits_head: "nat_digits n = [CHR ''0''] \<or> hd (nat_digits n) \<noteq> CHR ''0''"
proof (induction n rule: nat_digits.induct)
  case (1 n)
  show ?case
  proof (cases "n < 10")
    case True
    have "digit_char n = CHR ''0'' \<longleftrightarrow> n = 0"
      using digit_val_digit_char [OF True] digit_val_digit_char [of 0] digit_char_0 by (metis zero_less_numeral)
    with True show ?thesis using digit_char_0 by (auto simp: nat_digits_small)
  next
    case False
    have "nat_digits (n div 10) \<noteq> [CHR ''0'']"
    proof
      assume "nat_digits (n div 10) = [CHR ''0'']"
      then have "nat_digits (n div 10) = nat_digits 0" by (simp add: nat_digits_small digit_char_0)
      then have "n div 10 = 0" by (rule nat_digits_inj)
      with False show False by simp
    qed
    with 1 False show ?thesis by (simp add: nat_digits_ge)
  qed
qed

lemma scan_int_digits:
  assumes "rest = [] \<or> \<not> is_digit (hd rest)"
  shows "scan_int (nat_digits n @ rest) = Some (nat_digits n, rest)"
proof -
  obtain c r where cr: "nat_digits n = c # r" by (cases "nat_digits n") auto
  have d: "list_all is_digit (nat_digits n)" by (rule nat_digits_are_digits)
  show ?thesis
  proof (cases "nat_digits n = [CHR ''0'']")
    case True
    then show ?thesis by (simp add: scan_int_def)
  next
    case False
    then have "c \<noteq> CHR ''0''" "is_digit c" using nat_digits_head [of n] cr d by auto
    then show ?thesis using takeWhile_digits [OF d assms] by (simp add: scan_int_def cr)
  qed
qed

lemma is_number_decimal: "is_number (format_decimal m j)"
proof -
  let ?w = "nat_digits (nat \<bar>m\<bar> div 10 ^ j)"
  let ?r = "if j = 0 then [] else CHR ''.'' # pad_nat j (nat \<bar>m\<bar> mod 10 ^ j)"
  have dot: "\<not> is_digit CHR ''.''" by (simp add: is_digit_def byte_of_def)
  have w: "scan_int (?w @ ?r) = Some (?w, ?r)"
    by (rule scan_int_digits) (auto simp: dot)
  obtain c r where cr: "?w = c # r" by (cases ?w) auto
  have "is_digit c" using nat_digits_are_digits [of "nat \<bar>m\<bar> div 10 ^ j"] cr by simp
  then have c: "c \<noteq> CHR ''-''" using not_digit_minus by auto
  have m: "scan_minus ((if m < 0 then ''-'' else []) @ ?w @ ?r) = (if m < 0 then ''-'' else [], ?w @ ?r)"
    using c cr by (auto simp: scan_minus_def)
  have p: "pad_nat j k \<noteq> []" for k by (simp add: pad_nat_def)
  have t: "takeWhile is_digit (pad_nat j k) = pad_nat j k" "dropWhile is_digit (pad_nat j k) = []" for k
    using takeWhile_digits [OF pad_nat_digits, of "[]" j k] by simp_all
  have f: "scan_frac ?r = Some (?r, [])"
    by (simp add: scan_frac_def t p)
  have e: "scan_exp [] = Some ([], [])" by (simp add: scan_exp_def)
  show ?thesis
    unfolding is_number_def scan_number_def format_decimal_def m Let_def prod.case w f e by (simp add: e w f)
qed

lemma is_number_Itoa: "is_number (Itoa i)"
proof -
  have "Itoa i = format_decimal i 0" by (simp add: Itoa_def format_decimal_def)
  then show ?thesis by (simp add: is_number_decimal)
qed

lemma is_number_float: "is_number (format_float x)"
  by (simp add: format_float_def Let_def is_number_decimal)

end
