(* ===== verification/Hafas.thy ===== *)
theory Hafas
  imports Proxy GoFloat
begin

text \<open>
  \<open>hafas.go\<close> without the provider functions: the protocol types and their decoding, the request
  that every call wraps, the three searches and the station board, and the readers of HAFAS
  times and product classes.
\<close>

section \<open>The protocol types\<close>

record hafasCrd =
  crd_X :: int
  crd_Y :: int

record hafasLocation =
  loc_Name :: string
  loc_ExtID :: string
  loc_Crd :: hafasCrd
  loc_PCls :: int
  loc_Type :: string
  loc_TZOffset :: int
  loc_Dist :: int

record hafasProdCtx =
  CatCode :: string
  CatOut :: string

record hafasProduct =
  prod_Name :: string
  prod_NameS :: string
  prod_Cls :: int
  ProdCtx :: hafasProdCtx

record hafasRemark =
  rem_Type :: string
  rem_Code :: string
  rem_TxtN :: string

record hafasCommon =
  LocL :: "hafasLocation list"
  ProdL :: "hafasProduct list"
  RemL :: "hafasRemark list"

record hafasPlatform =
  Txt :: string

record hafasStbStop =
  LocX :: int
  DProdX :: int
  AProdX :: int
  DTimeS :: string
  DTimeR :: string
  DPltfS :: "hafasPlatform option"
  DCncl :: bool
  ATimeS :: string
  ATimeR :: string
  APltfS :: "hafasPlatform option"
  ACncl :: bool

record hafasJourney =
  JID :: string
  jny_Date :: string
  ProdX :: int
  DirTxt :: string
  jny_Status :: string
  StbStop :: hafasStbStop

record hafasStationBoardResult =
  Common :: hafasCommon
  board_Type :: string
  JnyL :: "hafasJourney list"
  PlanrtTS :: string
  SD :: string
  ST :: string

record hafasLocMatchResult =
  match_LocL :: "hafasLocation list"

record hafasLocGeoPosResult =
  geo_Common :: hafasCommon
  geo_LocL :: "hafasLocation list"

text \<open>\<open>json.RawMessage\<close> keeps the value; a missing field is the empty message.\<close>

record hafasSvcResult =
  svc_Meth :: string
  svc_Err :: string
  svc_Res :: "json option"

record hafasResponse =
  hr_Err :: string
  SvcResL :: "hafasSvcResult list"

record HAFASClient =
  httpClient :: http_client
  endpoint :: string
  authAID :: string
  version :: string

definition NewHAFASClient :: "http_client \<Rightarrow> string \<Rightarrow> string \<Rightarrow> string \<Rightarrow> HAFASClient" where
  "NewHAFASClient client ep aid ver =
     \<lparr>httpClient = client, endpoint = ep, authAID = aid,
      version = (if ver = [] then ''1.45'' else ver)\<rparr>"

section \<open>Decoding\<close>

definition zero_crd :: hafasCrd where
  "zero_crd = \<lparr>crd_X = 0, crd_Y = 0\<rparr>"

definition zero_location :: hafasLocation where
  "zero_location = \<lparr>loc_Name = [], loc_ExtID = [], loc_Crd = zero_crd, loc_PCls = 0, loc_Type = [],
     loc_TZOffset = 0, loc_Dist = 0\<rparr>"

definition zero_product :: hafasProduct where
  "zero_product = \<lparr>prod_Name = [], prod_NameS = [], prod_Cls = 0,
     ProdCtx = \<lparr>CatCode = [], CatOut = []\<rparr>\<rparr>"

definition zero_remark :: hafasRemark where
  "zero_remark = \<lparr>rem_Type = [], rem_Code = [], rem_TxtN = []\<rparr>"

definition zero_common :: hafasCommon where
  "zero_common = \<lparr>LocL = [], ProdL = [], RemL = []\<rparr>"

definition zero_stbStop :: hafasStbStop where
  "zero_stbStop = \<lparr>LocX = 0, DProdX = 0, AProdX = 0, DTimeS = [], DTimeR = [], DPltfS = None,
     DCncl = False, ATimeS = [], ATimeR = [], APltfS = None, ACncl = False\<rparr>"

definition zero_hafas_journey :: hafasJourney where
  "zero_hafas_journey = \<lparr>JID = [], jny_Date = [], ProdX = 0, DirTxt = [], jny_Status = [],
     StbStop = zero_stbStop\<rparr>"

definition zero_board :: hafasStationBoardResult where
  "zero_board = \<lparr>Common = zero_common, board_Type = [], JnyL = [], PlanrtTS = [], SD = [], ST = []\<rparr>"

definition zero_svc :: hafasSvcResult where
  "zero_svc = \<lparr>svc_Meth = [], svc_Err = [], svc_Res = None\<rparr>"

definition dec_crd :: "hafasCrd decoder" where
  "dec_crd = dec_struct
     [(''x'', field crd_X crd_X_update dec_int), (''y'', field crd_Y crd_Y_update dec_int)]"

definition dec_location :: "hafasLocation decoder" where
  "dec_location = dec_struct
     [(''name'', field loc_Name loc_Name_update dec_string),
      (''extId'', field loc_ExtID loc_ExtID_update dec_string),
      (''crd'', field loc_Crd loc_Crd_update dec_crd),
      (''pCls'', field loc_PCls loc_PCls_update dec_int),
      (''type'', field loc_Type loc_Type_update dec_string),
      (''TZOffset'', field loc_TZOffset loc_TZOffset_update dec_int),
      (''dist'', field loc_Dist loc_Dist_update dec_int)]"

definition dec_prodCtx :: "hafasProdCtx decoder" where
  "dec_prodCtx = dec_struct
     [(''catCode'', field CatCode CatCode_update dec_string),
      (''catOut'', field CatOut CatOut_update dec_string)]"

definition dec_product :: "hafasProduct decoder" where
  "dec_product = dec_struct
     [(''name'', field prod_Name prod_Name_update dec_string),
      (''nameS'', field prod_NameS prod_NameS_update dec_string),
      (''cls'', field prod_Cls prod_Cls_update dec_int),
      (''prodCtx'', field ProdCtx ProdCtx_update dec_prodCtx)]"

definition dec_remark :: "hafasRemark decoder" where
  "dec_remark = dec_struct
     [(''type'', field rem_Type rem_Type_update dec_string),
      (''code'', field rem_Code rem_Code_update dec_string),
      (''txtN'', field rem_TxtN rem_TxtN_update dec_string)]"

definition dec_common :: "hafasCommon decoder" where
  "dec_common = dec_struct
     [(''locL'', field LocL LocL_update (dec_list zero_location dec_location)),
      (''prodL'', field ProdL ProdL_update (dec_list zero_product dec_product)),
      (''remL'', field RemL RemL_update (dec_list zero_remark dec_remark))]"

definition dec_platform :: "hafasPlatform option decoder" where
  "dec_platform = dec_ptr \<lparr>Txt = []\<rparr> (dec_struct [(''txt'', field Txt Txt_update dec_string)])"

definition dec_stbStop :: "hafasStbStop decoder" where
  "dec_stbStop = dec_struct
     [(''locX'', field LocX LocX_update dec_int),
      (''dProdX'', field DProdX DProdX_update dec_int),
      (''aProdX'', field AProdX AProdX_update dec_int),
      (''dTimeS'', field DTimeS DTimeS_update dec_string),
      (''dTimeR'', field DTimeR DTimeR_update dec_string),
      (''dPltfS'', field DPltfS DPltfS_update dec_platform),
      (''dCncl'', field DCncl DCncl_update dec_bool),
      (''aTimeS'', field ATimeS ATimeS_update dec_string),
      (''aTimeR'', field ATimeR ATimeR_update dec_string),
      (''aPltfS'', field APltfS APltfS_update dec_platform),
      (''aCncl'', field ACncl ACncl_update dec_bool)]"

definition dec_hafas_journey :: "hafasJourney decoder" where
  "dec_hafas_journey = dec_struct
     [(''jid'', field JID JID_update dec_string),
      (''date'', field jny_Date jny_Date_update dec_string),
      (''prodX'', field ProdX ProdX_update dec_int),
      (''dirTxt'', field DirTxt DirTxt_update dec_string),
      (''status'', field jny_Status jny_Status_update dec_string),
      (''stbStop'', field StbStop StbStop_update dec_stbStop)]"

definition dec_board :: "hafasStationBoardResult decoder" where
  "dec_board = dec_struct
     [(''common'', field Common Common_update dec_common),
      (''type'', field board_Type board_Type_update dec_string),
      (''jnyL'', field JnyL JnyL_update (dec_list zero_hafas_journey dec_hafas_journey)),
      (''planrtTS'', field PlanrtTS PlanrtTS_update dec_string),
      (''sD'', field SD SD_update dec_string),
      (''sT'', field ST ST_update dec_string)]"

definition dec_locMatch :: "hafasLocMatchResult decoder" where
  "dec_locMatch = dec_struct
     [(''match'', dec_struct
         [(''locL'', field match_LocL match_LocL_update (dec_list zero_location dec_location))])]"

definition dec_locGeoPos :: "hafasLocGeoPosResult decoder" where
  "dec_locGeoPos = dec_struct
     [(''common'', field geo_Common geo_Common_update dec_common),
      (''locL'', field geo_LocL geo_LocL_update (dec_list zero_location dec_location))]"

definition dec_raw :: "json option decoder" where
  "dec_raw v old = Some (Some v)"

definition dec_svc :: "hafasSvcResult decoder" where
  "dec_svc = dec_struct
     [(''meth'', field svc_Meth svc_Meth_update dec_string),
      (''err'', field svc_Err svc_Err_update dec_string),
      (''res'', field svc_Res svc_Res_update dec_raw)]"

definition dec_response :: "hafasResponse decoder" where
  "dec_response = dec_struct
     [(''err'', field hr_Err hr_Err_update dec_string),
      (''svcResL'', field SvcResL SvcResL_update (dec_list zero_svc dec_svc))]"

section \<open>One call\<close>

text \<open>\<open>json.Marshal(hafasRequest{...})\<close>; the members of the request maps are given in the sorted
  order in which Go marshals them.\<close>

definition hafas_request :: "HAFASClient \<Rightarrow> string \<Rightarrow> json \<Rightarrow> json" where
  "hafas_request c meth req =
     JObj [(''lang'', JStr ''en''),
           (''svcReqL'', JArr [JObj [(''meth'', JStr meth), (''req'', req)]]),
           (''client'', JObj [(''type'', JStr ''WEB''), (''id'', JStr ''VBB''),
                              (''name'', JStr ''VBB WebApp''), (''l'', JStr ''vs_webapp_vbb'')]),
           (''ver'', JStr (version c)),
           (''auth'', JObj [(''type'', JStr ''AID''), (''aid'', JStr (authAID c))])]"

definition check_response :: "hafasResponse \<Rightarrow> go_error + hafasSvcResult" where
  "check_response result =
     (if hr_Err result \<noteq> ''OK''
      then Inl (ErrorString (''HAFAS top-level error: '' @ hr_Err result))
      else case SvcResL result of
             [] \<Rightarrow> Inl (ErrorString ''HAFAS returned empty svcResL'')
           | svc # _ \<Rightarrow>
               if svc_Err svc \<noteq> ''OK''
               then Inl (ErrorString (''HAFAS service error: '' @ svc_Err svc))
               else Inr svc)"

definition hafas_do :: "HAFASClient \<Rightarrow> string \<Rightarrow> json \<Rightarrow> (go_error + hafasSvcResult) \<times> int" where
  "hafas_do c meth req =
     (case NewRequest (httpClient c) ''POST'' (endpoint c) of
        Some err \<Rightarrow> (Inl err, 0)
      | None \<Rightarrow>
          (case Do (httpClient c)
                  \<lparr>ob_method = ''POST'', ob_url = endpoint c,
                   ob_header = header_set ''Content-Type'' ''application/json'' [],
                   ob_body = Marshal (hafas_request c meth req)\<rparr> of
             (Inl err, d) \<Rightarrow> (Inl err, d)
           | (Inr resp, d) \<Rightarrow>
               (if StatusCode resp \<noteq> 200
                then Inl (ErrorString (''HAFAS returned status '' @ Itoa (StatusCode resp)))
                else case Decode_body dec_response \<lparr>hr_Err = [], SvcResL = []\<rparr> resp of
                       Inl err \<Rightarrow> Inl err
                     | Inr result \<Rightarrow> check_response result, d)))"

text \<open>\<open>json.Unmarshal(svc.Res, &res)\<close>: the raw message is a valid value, or empty.\<close>

definition decode_res :: "'a decoder \<Rightarrow> 'a \<Rightarrow> hafasSvcResult \<Rightarrow> go_error + 'a" where
  "decode_res dec zero svc =
     (case svc_Res svc of
        None \<Rightarrow> Inl JsonError
      | Some v \<Rightarrow> (case dec v zero of None \<Rightarrow> Inl JsonError | Some x \<Rightarrow> Inr x))"

definition hafas_call :: "'a decoder \<Rightarrow> 'a \<Rightarrow> HAFASClient \<Rightarrow> string \<Rightarrow> json \<Rightarrow> (go_error + 'a) \<times> int" where
  "hafas_call dec zero c meth req =
     (case hafas_do c meth req of
        (Inl err, d) \<Rightarrow> (Inl err, d)
      | (Inr svc, d) \<Rightarrow> (decode_res dec zero svc, d))"

definition json_int :: "int \<Rightarrow> json" where
  "json_int i = JNum (Itoa i)"

definition stationBoard ::
  "HAFASClient \<Rightarrow> string \<Rightarrow> string \<Rightarrow> int \<Rightarrow> (go_error + hafasStationBoardResult) \<times> int" where
  "stationBoard c stopID boardType duration =
     hafas_call dec_board zero_board c ''StationBoard''
       (JObj [(''dur'', json_int duration),
              (''stbLoc'', JObj [(''lid'', JStr (''A=1@L='' @ stopID @ ''@''))]),
              (''type'', JStr boardType)])"

definition locMatch :: "HAFASClient \<Rightarrow> string \<Rightarrow> int \<Rightarrow> (go_error + hafasLocMatchResult) \<times> int" where
  "locMatch c query maxResults =
     hafas_call dec_locMatch \<lparr>match_LocL = []\<rparr> c ''LocMatch''
       (JObj [(''input'', JObj
         [(''field'', JStr ''S''),
          (''loc'', JObj [(''name'', JStr query), (''type'', JStr ''S'')]),
          (''maxLoc'', json_int maxResults)])])"

definition locMatchByExtID :: "HAFASClient \<Rightarrow> string \<Rightarrow> (go_error + hafasLocMatchResult) \<times> int" where
  "locMatchByExtID c extID =
     hafas_call dec_locMatch \<lparr>match_LocL = []\<rparr> c ''LocMatch''
       (JObj [(''input'', JObj
         [(''field'', JStr ''S''),
          (''loc'', JObj [(''extId'', JStr extID), (''type'', JStr ''S'')])])])"

definition micro :: "float64 \<Rightarrow> int" where
  "micro f = int_of_float (float_mul f 1000000)"

definition locGeoPos ::
  "HAFASClient \<Rightarrow> float64 \<Rightarrow> float64 \<Rightarrow> int \<Rightarrow> int \<Rightarrow> (go_error + hafasLocGeoPosResult) \<times> int" where
  "locGeoPos c lat lon maxDist maxResults =
     hafas_call dec_locGeoPos \<lparr>geo_Common = zero_common, geo_LocL = []\<rparr> c ''LocGeoPos''
       (JObj [(''getStops'', JBool True),
              (''maxLoc'', json_int maxResults),
              (''ring'', JObj
                 [(''cCrd'', JObj [(''x'', json_int (micro lon)), (''y'', json_int (micro lat))]),
                  (''maxDist'', json_int maxDist)])])"

section \<open>Times\<close>

text \<open>Errors of \<open>Atoi\<close> are ignored; the string slices are in range after the length checks.\<close>

definition substr :: "string \<Rightarrow> nat \<Rightarrow> nat \<Rightarrow> string" where
  "substr s i j = take (j - i) (drop i s)"

definition parseHAFASTime :: "string \<Rightarrow> string \<Rightarrow> int \<Rightarrow> time" where
  "parseHAFASTime date timeStr tzOffset =
     (if length date \<noteq> 8 \<or> length timeStr < 6 then zero_time
      else let year = Atoi_value (substr date 0 4);
               month = Atoi_value (substr date 4 6);
               day = Atoi_value (substr date 6 8);
               n = length timeStr;
               dayOffset = (if 6 < n then Atoi_value (substr timeStr 0 (n - 6)) else 0);
               hour = Atoi_value (substr timeStr (n - 6) (n - 4));
               minute = Atoi_value (substr timeStr (n - 4) (n - 2));
               sec = Atoi_value (substr timeStr (n - 2) n)
           in Date year month (wrap64 (day + dayOffset)) hour minute sec (wrap64 (tzOffset * 60)))"

section \<open>Products\<close>

unbundle bit_operations_syntax

definition hafasProductName :: "int \<Rightarrow> string" where
  "hafasProductName cls =
     (if cls AND 1 \<noteq> 0 then ''suburban''
      else if cls AND 2 \<noteq> 0 then ''subway''
      else if cls AND 4 \<noteq> 0 then ''tram''
      else if cls AND 8 \<noteq> 0 then ''bus''
      else if cls AND 16 \<noteq> 0 then ''ferry''
      else if cls AND 32 \<noteq> 0 then ''express''
      else if cls AND 64 \<noteq> 0 then ''regional''
      else [])"

definition hafasProductsMap :: "int \<Rightarrow> (string \<times> bool) list" where
  "hafasProductsMap pCls =
     [(''suburban'', pCls AND 1 \<noteq> 0),
      (''subway'', pCls AND 2 \<noteq> 0),
      (''tram'', pCls AND 4 \<noteq> 0),
      (''bus'', pCls AND 8 \<noteq> 0),
      (''ferry'', pCls AND 16 \<noteq> 0),
      (''express'', pCls AND 32 \<noteq> 0),
      (''regional'', pCls AND 64 \<noteq> 0)]"

section \<open>Reading times\<close>

lemma Atoi_value_pad2: "n < 100 \<Longrightarrow> Atoi_value (pad_nat 2 n) = int n"
  and Atoi_value_pad4: "n < 10000 \<Longrightarrow> Atoi_value (pad_nat 4 n) = int n"
proof -
  have *: "Atoi_value (pad_nat w n) = int n" if "pad_nat w n \<noteq> []" "n < 10000" for w
  proof -
    have d: "list_all is_digit (pad_nat w n)" by (rule pad_nat_digits)
    then have h: "hd (pad_nat w n) \<noteq> CHR ''-''" "hd (pad_nat w n) \<noteq> CHR ''+''"
      using that(1) by (cases "pad_nat w n"; auto simp: is_digit_def byte_of_def)+
    have "ParseUint (pad_nat w n) = (n, None)"
      using ParseUint_digits [OF that(1) d] that(2) by simp
    then show ?thesis using h that(2) by (simp add: Atoi_value_def Atoi_def ParseInt_def Let_def)
  qed
  show "n < 100 \<Longrightarrow> Atoi_value (pad_nat 2 n) = int n" by (rule *) (simp_all add: pad_nat_2)
  show "n < 10000 \<Longrightarrow> Atoi_value (pad_nat 4 n) = int n" by (rule *) (simp_all add: pad_nat_4)
qed

lemma length_pad_nat_2: "n < 100 \<Longrightarrow> length (pad_nat 2 n) = 2"
  and length_pad_nat_4: "n < 10000 \<Longrightarrow> length (pad_nat 4 n) = 4"
  by (simp_all add: pad_nat_2 pad_nat_4)

lemma substr_prefix: "length a = j \<Longrightarrow> substr (a @ b) 0 j = a"
  by (simp add: substr_def)

lemma substr_skip: "length a = k \<Longrightarrow> k \<le> i \<Longrightarrow> substr (a @ b) i j = substr b (i - k) (j - k)"
  by (simp add: substr_def)

text \<open>A HAFAS time of day: two digits each of hours, minutes and seconds, after an optional
  number of days.\<close>

definition hafas_clock :: "nat \<Rightarrow> nat \<Rightarrow> nat \<Rightarrow> string" where
  "hafas_clock h mi s = pad_nat 2 h @ pad_nat 2 mi @ pad_nat 2 s"

definition hafas_date :: "nat \<Rightarrow> nat \<Rightarrow> nat \<Rightarrow> string" where
  "hafas_date y mo d = pad_nat 4 y @ pad_nat 2 mo @ pad_nat 2 d"

lemma clock_fields:
  assumes "h < 100" and "mi < 100" and "s < 100"
  shows "substr (pre @ hafas_clock h mi s) (length pre) (length pre + 2) = pad_nat 2 h"
    and "substr (pre @ hafas_clock h mi s) (length pre + 2) (length pre + 4) = pad_nat 2 mi"
    and "substr (pre @ hafas_clock h mi s) (length pre + 4) (length pre + 6) = pad_nat 2 s"
    and "length (hafas_clock h mi s) = 6"
  using assms by (simp_all add: hafas_clock_def substr_def length_pad_nat_2)

lemma date_fields:
  assumes "y < 10000" and "mo < 100" and "d < 100"
  shows "substr (hafas_date y mo d) 0 4 = pad_nat 4 y"
    and "substr (hafas_date y mo d) 4 6 = pad_nat 2 mo"
    and "substr (hafas_date y mo d) 6 8 = pad_nat 2 d"
    and "length (hafas_date y mo d) = 8"
  using assms by (simp_all add: hafas_date_def substr_def length_pad_nat_2 length_pad_nat_4)

lemma parse_clock:
  assumes "y < 10000" "mo < 100" "d < 100" "h < 100" "mi < 100" "s < 100"
  shows "parseHAFASTime (hafas_date y mo d) (pre @ hafas_clock h mi s) tz =
    Date (int y) (int mo) (wrap64 (int d + (if pre = [] then 0 else Atoi_value pre)))
      (int h) (int mi) (int s) (wrap64 (tz * 60))"
proof -
  have n: "length (pre @ hafas_clock h mi s) = length pre + 6" using clock_fields(4) assms by simp
  have pre: "substr (pre @ hafas_clock h mi s) 0 (length pre + 6 - 6) = pre"
    by (simp add: substr_def)
  have e: "length pre + 6 - 6 = length pre" "length pre + 6 - 4 = length pre + 2"
    "length pre + 6 - 2 = length pre + 4" by simp_all
  show ?thesis
    unfolding parseHAFASTime_def Let_def n date_fields [OF assms(1-3)] pre
    unfolding e clock_fields(1-3) [OF assms(4-6), of pre]
    using assms by (simp add: Atoi_value_pad2 Atoi_value_pad4)
qed

lemma days_before_month_bounds:
  "1 \<le> m \<Longrightarrow> m \<le> 12 \<Longrightarrow> 0 \<le> days_before_month leap m \<and> days_before_month leap m \<le> 335"
  by (erule (1) month_cases; simp add: days_before_month_def month_lengths_def)

lemma days_of_date_bounds:
  assumes "0 \<le> y" "y < 10000" "1 \<le> m" "m \<le> 12"
  shows "- 366 \<le> days_of_date y m 1" and "days_of_date y m 1 \<le> 3652800"
proof -
  have "days_before_year 0 \<le> days_before_year y" "days_before_year y \<le> days_before_year 10000"
    using assms by (simp_all add: days_before_year_mono)
  then have "- 366 \<le> days_before_year y" "days_before_year y \<le> 3652059"
    by (simp_all add: days_before_year_def)
  then show "- 366 \<le> days_of_date y m 1" "days_of_date y m 1 \<le> 3652800"
    using days_before_month_bounds [OF assms(3,4), of "leap_year y"] by (simp_all add: days_of_date_def)
qed

lemma days_of_date_shift: "days_of_date y m d = days_of_date y m 1 + (d - 1)"
  by (simp add: days_of_date_def)

lemma Date_local_seconds:
  assumes "0 \<le> y" "y < 10000" "1 \<le> mo" "mo \<le> 12" "\<bar>d\<bar> \<le> 1000" "\<bar>h\<bar> \<le> 100" "\<bar>mi\<bar> \<le> 100"
    "\<bar>s\<bar> \<le> 100" "\<bar>off\<bar> \<le> 10 ^ 9"
  shows "Date y (int mo) d h mi s off =
    \<lparr>t_inst = Instant (days_of_date y mo d * 86400 + h * 3600 + mi * 60 + s - off) 0, t_off = off\<rparr>"
proof -
  have m: "(int mo - 1) div 12 = 0" "Suc (nat ((int mo - 1) mod 12)) = mo"
    using assms(3,4) by auto
  define D where "D = days_of_date y mo 1"
  have D: "- 366 \<le> D" "D \<le> 3652800"
    using days_of_date_bounds [OF assms(1-4)] by (simp_all add: D_def)
  have d: "days_of_date y mo d = D + (d - 1)" by (simp add: D_def days_of_date_shift [of y mo d])
  have "in_int64 (days_of_date y mo d * 86400 + h * 3600 + mi * 60 + s - off)"
    unfolding d in_int64_def using D assms(5-9) by (simp add: int64_defs abs_le_iff)
  then show ?thesis by (simp add: Date_def m Let_def secs_per_day_def wrap64_id)
qed

lemma parse_seconds:
  assumes "y < 10000" "1 \<le> mo" "mo \<le> 12" "d < 100" "dd < 100" "h < 100" "mi < 100" "s < 100"
    and "\<bar>tz\<bar> \<le> 1000000"
  shows "parseHAFASTime (hafas_date y mo d) (pad_nat 2 dd @ hafas_clock h mi s) tz =
    \<lparr>t_inst = Instant ((days_of_date (int y) mo (int d) + int dd) * 86400
        + int h * 3600 + int mi * 60 + int s - tz * 60) 0, t_off = tz * 60\<rparr>
   \<and> parseHAFASTime (hafas_date y mo d) (hafas_clock h mi s) tz =
    \<lparr>t_inst = Instant (days_of_date (int y) mo (int d) * 86400
        + int h * 3600 + int mi * 60 + int s - tz * 60) 0, t_off = tz * 60\<rparr>"
proof
  have ne: "pad_nat 2 dd \<noteq> []" using assms(5) by (simp add: pad_nat_2)
  have w: "wrap64 (int d + int dd) = int d + int dd" "wrap64 (int d) = int d" "wrap64 (tz * 60) = tz * 60"
    using assms by (auto intro!: wrap64_id simp: int64_defs)
  have sh: "days_of_date (int y) mo (int d + int dd) = days_of_date (int y) mo (int d) + int dd"
    by (simp add: days_of_date_def)
  have mo: "mo < 100" using assms by simp
  have D: "Date (int y) (int mo) dx (int h) (int mi) (int s) (tz * 60) =
      \<lparr>t_inst = Instant (days_of_date (int y) mo dx * 86400 + int h * 3600 + int mi * 60 + int s - tz * 60) 0,
       t_off = tz * 60\<rparr>" if "0 \<le> dx" "dx \<le> 198" for dx
    using that assms by (intro Date_local_seconds) auto
  show "parseHAFASTime (hafas_date y mo d) (pad_nat 2 dd @ hafas_clock h mi s) tz =
    \<lparr>t_inst = Instant ((days_of_date (int y) mo (int d) + int dd) * 86400
        + int h * 3600 + int mi * 60 + int s - tz * 60) 0, t_off = tz * 60\<rparr>"
    using parse_clock [OF assms(1) mo assms(4,6,7,8), of "pad_nat 2 dd" tz] D [of "int d + int dd"] assms
    by (simp add: ne w sh Atoi_value_pad2)
  show "parseHAFASTime (hafas_date y mo d) (hafas_clock h mi s) tz =
    \<lparr>t_inst = Instant (days_of_date (int y) mo (int d) * 86400
        + int h * 3600 + int mi * 60 + int s - tz * 60) 0, t_off = tz * 60\<rparr>"
    using parse_clock [OF assms(1) mo assms(4,6,7,8), of "[]" tz] D [of "int d"] assms
    by (simp add: w)
qed

text \<open>C38. A HAFAS date and time is read as the local time it spells out: the seconds since the
  start of the date, the leading day count included, shifted by the location's offset in
  minutes.\<close>

theorem parseHAFASTime_reads:
  assumes "y < 10000" "1 \<le> mo" "mo \<le> 12" "d < 100" "dd < 100" "h < 100" "mi < 100" "s < 100"
    and "\<bar>tz\<bar> \<le> 1000000"
  shows "parseHAFASTime (hafas_date y mo d) (pad_nat 2 dd @ hafas_clock h mi s) tz =
    \<lparr>t_inst = Instant ((days_of_date (int y) mo (int d) + int dd) * 86400
        + int h * 3600 + int mi * 60 + int s - tz * 60) 0, t_off = tz * 60\<rparr>
   \<and> parseHAFASTime (hafas_date y mo d) (hafas_clock h mi s) tz =
    \<lparr>t_inst = Instant (days_of_date (int y) mo (int d) * 86400
        + int h * 3600 + int mi * 60 + int s - tz * 60) 0, t_off = tz * 60\<rparr>"
  by (rule parse_seconds [OF assms])

theorem parseHAFASTime_reads_witness:
  "parseHAFASTime (hafas_date 2026 2 25) (pad_nat 2 1 @ hafas_clock 0 23 0) 120 =
    \<lparr>t_inst = Instant ((days_of_date 2026 2 25 + 1) * 86400 + 0 * 3600 + 23 * 60 + 0 - 120 * 60) 0,
     t_off = 120 * 60\<rparr>"
  using parseHAFASTime_reads [of 2026 2 25 1 0 23 0 120] by simp

section \<open>Product classes\<close>

text \<open>The product of a class is the first product of the products map whose flag the class
  sets, and empty if it sets none; the map lists the same seven products.\<close>

theorem product_name_first_flag:
  "hafasProductName cls =
     (case find snd (hafasProductsMap cls) of None \<Rightarrow> [] | Some (name, _) \<Rightarrow> name)"
  by (simp add: hafasProductName_def hafasProductsMap_def)

section \<open>One call\<close>

text \<open>A HAFAS call succeeds exactly when the request could be built, the exchange gave a 200
  whose body decodes, and both the envelope and the first service result say OK; it returns that
  result.\<close>

theorem hafas_do_succeeds_iff:
  "fst (hafas_do c meth req) = Inr svc \<longleftrightarrow>
     NewRequest (httpClient c) ''POST'' (endpoint c) = None \<and>
     (\<exists>resp result rest.
        fst (Do (httpClient c)
          \<lparr>ob_method = ''POST'', ob_url = endpoint c,
           ob_header = header_set ''Content-Type'' ''application/json'' [],
           ob_body = Marshal (hafas_request c meth req)\<rparr>) = Inr resp
        \<and> StatusCode resp = 200
        \<and> Decode_body dec_response \<lparr>hr_Err = [], SvcResL = []\<rparr> resp = Inr result
        \<and> hr_Err result = ''OK'' \<and> SvcResL result = svc # rest \<and> svc_Err svc = ''OK'')"
  by (auto simp: hafas_do_def check_response_def split: option.splits prod.splits sum.splits list.splits)

section \<open>Coordinates in a nearby search\<close>

lemma micro_exact:
  assumes "(i \<in> {8388609..15999999}) \<or> (i \<in> {33554433..63999999})"
  shows "to_float (of_int i / 10 ^ 6) = Fin (round64 (of_int i / 10 ^ 6))"
    and "micro (Fin (round64 (of_int i / 10 ^ 6))) = i"
proof -
  let ?x = "of_int i / 10 ^ 6 :: rat"
  have i: "8388609 \<le> i" "i \<le> 63999999" using assms by auto
  have "(of_int 8388609 :: rat) \<le> of_int i" "of_int i \<le> (of_int 63999999 :: rat)"
    using i by (simp_all only: of_int_le_iff)
  then have x: "8 \<le> ?x" "?x \<le> 64" by simp_all
  then have x': "?x = 0 \<or> 1 / 10 ^ 7 \<le> \<bar>?x\<bar>" "\<bar>?x\<bar> \<le> 2 ^ 100" by simp_all
  show "to_float ?x = Fin (round64 ?x)" by (rule to_float_finite [OF x'])
  have r: "round64 (round64 ?x * 1000000) = of_int i"
    using microdegrees_exact [OF assms] by simp
  have near: "pow2 (- 1022) \<le> pow2 0" by (rule pow2_mono) simp
  have "\<bar>round64 ?x - ?x\<bar> \<le> \<bar>?x\<bar> / 2 ^ 53"
    using x near by (intro round64_error) (simp_all add: pow2_def [of 0])
  moreover have "\<bar>?x\<bar> / 2 ^ 53 \<le> 1" using x by simp
  ultimately have "7 \<le> round64 ?x" "round64 ?x \<le> 65" using x by linarith+
  then have y: "round64 ?x * 1000000 = 0 \<or> 1 / 10 ^ 7 \<le> \<bar>round64 ?x * 1000000\<bar>"
    "\<bar>round64 ?x * 1000000\<bar> \<le> 2 ^ 100" by (simp_all add: abs_mult)
  have "float_mul (Fin (round64 ?x)) 1000000 = Fin (of_int i)"
    using to_float_finite(1) [OF y] r by simp
  moreover have "int_of_float (Fin (of_int i)) = i"
    using i by (simp add: truncate_def int64_defs)
  ultimately show "micro (Fin (round64 ?x)) = i" by (simp add: micro_def)
qed



text \<open>The truncation is not exact everywhere: 0.000249 degrees are sent as 248
  microdegrees.\<close>

theorem nearby_coordinate_off_by_one:
  "micro (fst (ParseFloat ''0.000249'')) = 248"
proof -
  let ?r = "round64 (249 / 10 ^ 6)"
  have s: "parse_decimal ''0.000249'' = Some (249 / 10 ^ 6)" by code_simp
  have r: "1 / 10 ^ 4 \<le> ?r" "?r \<le> 1" and t: "trunc_rat (round64 (?r * 1000000)) = 248"
    by code_simp+
  have "to_float (249 / 10 ^ 6) = Fin ?r" by (rule to_float_finite) simp_all
  then have "fst (ParseFloat ''0.000249'') = Fin ?r" using ParseFloat_decimal [OF s] by simp
  moreover have "to_float (?r * 1000000) = Fin (round64 (?r * 1000000))"
    by (rule to_float_finite) (use r in \<open>simp_all add: abs_mult\<close>)
  ultimately show ?thesis by (simp add: micro_def t [simplified] int64_defs)
qed

end
