(* ===== verification/HafasTranslate.thy ===== *)
theory HafasTranslate
  imports Hafas
begin

text \<open>
  \<open>hafas_translate.go\<close>: HAFAS results rewritten as transport.rest responses.  A Go struct is
  marshalled as an object with its fields in declaration order, a map with its keys sorted.
\<close>

section \<open>The response types and their JSON\<close>

record restLocation =
  rl_Type :: string
  rl_ID :: string
  Latitude :: float64
  Longitude :: float64

record restStop =
  rs_Type :: string
  rs_ID :: string
  rs_Name :: string
  Location :: restLocation
  Products :: "(string \<times> bool) list"

record restLine =
  line_Type :: string
  line_ID :: string
  line_Name :: string
  Mode :: string
  Product :: string

text \<open>Departures and arrivals differ in one field only: \<open>direction\<close> or \<open>provenance\<close>.\<close>

record restDeparture =
  TripID :: string
  Stop :: restStop
  rd_When :: "string option"
  rd_PlannedWhen :: string
  Delay :: "int option"
  Platform :: "string option"
  Direction :: string
  Line :: restLine
  Cancelled :: bool

record restArrival =
  arr_TripID :: string
  arr_Stop :: restStop
  arr_When :: "string option"
  arr_PlannedWhen :: string
  arr_Delay :: "int option"
  arr_Platform :: "string option"
  Provenance :: string
  arr_Line :: restLine
  arr_Cancelled :: bool

record restNearbyStop =
  nearby_stop :: restStop
  Distance :: int

text \<open>The float values here are finite; \<open>json.Marshal\<close> fails on the others.\<close>

fun json_float :: "float64 \<Rightarrow> json option" where
  "json_float (Fin x) = Some (JNum (format_float x))"
| "json_float _ = None"

definition json_opt :: "('a \<Rightarrow> json) \<Rightarrow> 'a option \<Rightarrow> json" where
  "json_opt f x = (case x of None \<Rightarrow> JNull | Some y \<Rightarrow> f y)"

fun bytes_le :: "string \<Rightarrow> string \<Rightarrow> bool" where
  "bytes_le [] _ = True"
| "bytes_le (c # s) [] = False"
| "bytes_le (c # s) (d # t) = (byte_of c < byte_of d \<or> (c = d \<and> bytes_le s t))"

fun insert_member :: "string \<times> 'a \<Rightarrow> (string \<times> 'a) list \<Rightarrow> (string \<times> 'a) list" where
  "insert_member p [] = [p]"
| "insert_member p (q # ms) = (if bytes_le (fst p) (fst q) then p # q # ms else q # insert_member p ms)"

definition json_map :: "('a \<Rightarrow> json) \<Rightarrow> (string \<times> 'a) list \<Rightarrow> json" where
  "json_map f m = JObj (map (\<lambda>(k, v). (k, f v)) (foldr insert_member m []))"

definition location_members :: "restLocation \<Rightarrow> (string \<times> json) list option" where
  "location_members l =
     (case (json_float (Latitude l), json_float (Longitude l)) of
        (Some lat, Some lon) \<Rightarrow>
          Some [(''type'', JStr (rl_Type l)), (''id'', JStr (rl_ID l)),
                (''latitude'', lat), (''longitude'', lon)]
      | _ \<Rightarrow> None)"

definition stop_members :: "restStop \<Rightarrow> (string \<times> json) list option" where
  "stop_members s =
     map_option (\<lambda>l. [(''type'', JStr (rs_Type s)), (''id'', JStr (rs_ID s)),
                      (''name'', JStr (rs_Name s)), (''location'', JObj l),
                      (''products'', json_map JBool (Products s))])
       (location_members (Location s))"

definition json_line :: "restLine \<Rightarrow> json" where
  "json_line l =
     JObj [(''type'', JStr (line_Type l)), (''id'', JStr (line_ID l)), (''name'', JStr (line_Name l)),
           (''mode'', JStr (Mode l)), (''product'', JStr (Product l))]"

definition json_departure :: "restDeparture \<Rightarrow> json option" where
  "json_departure d =
     map_option (\<lambda>s. JObj
       [(''tripId'', JStr (TripID d)), (''stop'', JObj s), (''when'', json_opt JStr (rd_When d)),
        (''plannedWhen'', JStr (rd_PlannedWhen d)), (''delay'', json_opt json_int (Delay d)),
        (''platform'', json_opt JStr (Platform d)), (''direction'', JStr (Direction d)),
        (''line'', json_line (Line d)), (''remarks'', JArr []), (''cancelled'', JBool (Cancelled d))])
       (stop_members (Stop d))"

definition json_arrival :: "restArrival \<Rightarrow> json option" where
  "json_arrival a =
     map_option (\<lambda>s. JObj
       [(''tripId'', JStr (arr_TripID a)), (''stop'', JObj s), (''when'', json_opt JStr (arr_When a)),
        (''plannedWhen'', JStr (arr_PlannedWhen a)), (''delay'', json_opt json_int (arr_Delay a)),
        (''platform'', json_opt JStr (arr_Platform a)), (''provenance'', JStr (Provenance a)),
        (''line'', json_line (arr_Line a)), (''remarks'', JArr []),
        (''cancelled'', JBool (arr_Cancelled a))])
       (stop_members (arr_Stop a))"

definition json_nearby :: "restNearbyStop \<Rightarrow> json option" where
  "json_nearby s = map_option (\<lambda>ms. JObj (ms @ [(''distance'', json_int (Distance s))])) (stop_members (nearby_stop s))"

text \<open>\<open>json.Marshal\<close> of a value that may hold an unsupported float.\<close>

definition json_list :: "('a \<Rightarrow> json option) \<Rightarrow> 'a list \<Rightarrow> json option" where
  "json_list f xs = map_option JArr (those (map f xs))"

definition Marshal_result :: "json option \<Rightarrow> go_error + bytes" where
  "Marshal_result v = (case v of None \<Rightarrow> Inl JsonError | Some j \<Rightarrow> Inr (Marshal j))"

section \<open>Translation\<close>

definition hafasProductMode :: "string \<Rightarrow> string" where
  "hafasProductMode product =
     (if product = ''bus'' then ''bus'' else if product = ''ferry'' then ''watercraft'' else ''train'')"

definition hafasLocationToRestStop :: "hafasLocation \<Rightarrow> restStop" where
  "hafasLocationToRestStop loc =
     \<lparr>rs_Type = ''stop'', rs_ID = loc_ExtID loc, rs_Name = loc_Name loc,
      Location = \<lparr>rl_Type = ''location'', rl_ID = loc_ExtID loc,
                  Latitude = float_div (float_of_int (crd_Y (loc_Crd loc))) 1000000,
                  Longitude = float_div (float_of_int (crd_X (loc_Crd loc))) 1000000\<rparr>,
      Products = hafasProductsMap (loc_PCls loc)\<rparr>"

text \<open>\<open>Duration.Seconds\<close>, for a duration in nanoseconds: quotient and remainder truncate towards
  zero.\<close>

definition quot_ns :: "int \<Rightarrow> int" where
  "quot_ns d = (if 0 \<le> d then d div 1000000000 else - (- d div 1000000000))"

definition Seconds :: "int \<Rightarrow> float64" where
  "Seconds d =
     (case float_div (float_of_int (d - quot_ns d * 1000000000)) 1000000000 of
        Fin y \<Rightarrow> float_add (float_of_int (quot_ns d)) y
      | f \<Rightarrow> f)"

text \<open>The two range checks at the head of each loop, and the location and product they admit.\<close>

definition board_refs ::
  "hafasStationBoardResult \<Rightarrow> hafasJourney \<Rightarrow> (hafasLocation \<times> hafasProduct) option" where
  "board_refs res jny =
     (let locL = LocL (Common res); prodL = ProdL (Common res); lx = LocX (StbStop jny); px = ProdX jny
      in if lx < 0 \<or> lx \<ge> int (length locL) then None
         else if px < 0 \<or> px \<ge> int (length prodL) then None
         else Some (locL ! nat lx, prodL ! nat px))"

definition board_zone :: "hafasLocation \<Rightarrow> int" where
  "board_zone loc = (if loc_TZOffset loc = 0 then 120 else loc_TZOffset loc)"

definition departure_of :: "hafasLocation \<Rightarrow> hafasProduct \<Rightarrow> hafasJourney \<Rightarrow> restDeparture" where
  "departure_of loc prd jny =
     (let tzOffset = board_zone loc;
          stb = StbStop jny;
          plannedWhen = parseHAFASTime (jny_Date jny) (DTimeS stb) tzOffset;
          when = (if DTimeR stb \<noteq> [] then parseHAFASTime (jny_Date jny) (DTimeR stb) tzOffset
                  else plannedWhen);
          delay = (if DTimeR stb \<noteq> [] then Some (int_of_float (Seconds (Sub when plannedWhen)))
                   else None);
          lineName = (if prod_NameS prd = [] then prod_Name prd else prod_NameS prd);
          product = hafasProductName (prod_Cls prd)
      in \<lparr>TripID = JID jny, Stop = hafasLocationToRestStop loc,
          rd_When = (if DCncl stb then None else Some (Format_when when)),
          rd_PlannedWhen = Format_when plannedWhen, Delay = delay,
          Platform = map_option Txt (DPltfS stb), Direction = DirTxt jny,
          Line = \<lparr>line_Type = ''line'', line_ID = lineName, line_Name = lineName,
                  Mode = hafasProductMode product, Product = product\<rparr>,
          Cancelled = DCncl stb\<rparr>)"

definition arrival_of :: "hafasLocation \<Rightarrow> hafasProduct \<Rightarrow> hafasJourney \<Rightarrow> restArrival" where
  "arrival_of loc prd jny =
     (let tzOffset = board_zone loc;
          stb = StbStop jny;
          plannedWhen = parseHAFASTime (jny_Date jny) (ATimeS stb) tzOffset;
          when = (if ATimeR stb \<noteq> [] then parseHAFASTime (jny_Date jny) (ATimeR stb) tzOffset
                  else plannedWhen);
          delay = (if ATimeR stb \<noteq> [] then Some (int_of_float (Seconds (Sub when plannedWhen)))
                   else None);
          lineName = (if prod_NameS prd = [] then prod_Name prd else prod_NameS prd);
          product = hafasProductName (prod_Cls prd)
      in \<lparr>arr_TripID = JID jny, arr_Stop = hafasLocationToRestStop loc,
          arr_When = (if ACncl stb then None else Some (Format_when when)),
          arr_PlannedWhen = Format_when plannedWhen, arr_Delay = delay,
          arr_Platform = map_option Txt (APltfS stb), Provenance = DirTxt jny,
          arr_Line = \<lparr>line_Type = ''line'', line_ID = lineName, line_Name = lineName,
                      Mode = hafasProductMode product, Product = product\<rparr>,
          arr_Cancelled = ACncl stb\<rparr>)"

text \<open>The loops: a journey with an index out of range is skipped.\<close>

fun translate_loop ::
  "(hafasLocation \<Rightarrow> hafasProduct \<Rightarrow> hafasJourney \<Rightarrow> 'a) \<Rightarrow> hafasStationBoardResult
     \<Rightarrow> hafasJourney list \<Rightarrow> 'a list" where
  "translate_loop f res [] = []"
| "translate_loop f res (jny # js) =
     (case board_refs res jny of
        None \<Rightarrow> translate_loop f res js
      | Some (loc, prd) \<Rightarrow> f loc prd jny # translate_loop f res js)"

definition updated_at :: "hafasStationBoardResult \<Rightarrow> int" where
  "updated_at res = (if PlanrtTS res \<noteq> [] then fst (ParseInt (PlanrtTS res)) else 0)"

record restDeparturesResponse =
  rdr_Departures :: "restDeparture list"
  rdr_UpdatedAt :: int

record restArrivalsResponse =
  rar_Arrivals :: "restArrival list"
  rar_UpdatedAt :: int

definition json_departures :: "restDeparturesResponse \<Rightarrow> json option" where
  "json_departures r = map_option
     (\<lambda>deps. JObj [(''departures'', deps), (''realtimeDataUpdatedAt'', json_int (rdr_UpdatedAt r))])
     (json_list json_departure (rdr_Departures r))"

definition json_arrivals :: "restArrivalsResponse \<Rightarrow> json option" where
  "json_arrivals r = map_option
     (\<lambda>arrs. JObj [(''arrivals'', arrs), (''realtimeDataUpdatedAt'', json_int (rar_UpdatedAt r))])
     (json_list json_arrival (rar_Arrivals r))"

definition translateDepartures :: "hafasStationBoardResult \<Rightarrow> go_error + bytes" where
  "translateDepartures res =
     Marshal_result (json_departures
       \<lparr>rdr_Departures = translate_loop departure_of res (JnyL res), rdr_UpdatedAt = updated_at res\<rparr>)"

definition translateArrivals :: "hafasStationBoardResult \<Rightarrow> go_error + bytes" where
  "translateArrivals res =
     Marshal_result (json_arrivals
       \<lparr>rar_Arrivals = translate_loop arrival_of res (JnyL res), rar_UpdatedAt = updated_at res\<rparr>)"

definition json_stop :: "restStop \<Rightarrow> json option" where
  "json_stop s = map_option JObj (stop_members s)"

definition translateLocations :: "hafasLocation list \<Rightarrow> go_error + bytes" where
  "translateLocations locs = Marshal_result (json_list json_stop (map hafasLocationToRestStop locs))"

definition translateNearbyLocations :: "hafasLocation list \<Rightarrow> go_error + bytes" where
  "translateNearbyLocations locs =
     Marshal_result (json_list json_nearby
       (map (\<lambda>loc. \<lparr>nearby_stop = hafasLocationToRestStop loc, Distance = loc_Dist loc\<rparr>) locs))"

definition translateStop :: "hafasLocation \<Rightarrow> go_error + bytes" where
  "translateStop loc = Marshal_result (json_stop (hafasLocationToRestStop loc))"

section \<open>Coordinates\<close>

lemma degrees_exact:
  assumes "\<bar>i\<bar> \<le> 2 ^ 40"
  shows "float_div (float_of_int i) 1000000 = Fin (round64 (of_int i / 10 ^ 6))"
proof -
  have "of_int \<bar>i\<bar> \<le> (of_int (2 ^ 40) :: rat)" using assms by (simp only: of_int_le_iff)
  then have I: "\<bar>of_int i :: rat\<bar> \<le> 2 ^ 40" by simp
  have one: "of_int i = (0 :: rat) \<or> 1 \<le> \<bar>of_int i :: rat\<bar>"
  proof (cases "i = 0")
    case False
    then have "1 \<le> \<bar>i\<bar>" by simp
    then have "1 \<le> \<bar>of_int i :: rat\<bar>" by (simp only: of_int_abs [symmetric] of_int_1_le_iff)
    then show ?thesis ..
  qed simp
  have f: "float_of_int i = Fin (of_int i)"
    using assms by (intro float_of_int_exact) simp
  have "to_float (of_int i / 1000000) = Fin (round64 (of_int i / 1000000))"
    by (rule to_float_finite) (use I one in \<open>auto simp: abs_divide\<close>)
  then show ?thesis by (simp add: f)
qed

text \<open>C39. Coordinates survive the translation: the latitude and longitude printed for a stop are
  exactly the microdegrees that HAFAS gave, divided by a million, for any magnitude up to
  \<open>2^40\<close> microdegrees, although they pass through a binary float.\<close>

theorem coordinates_printed_exactly:
  assumes "\<bar>crd_X (loc_Crd loc)\<bar> \<le> 2 ^ 40" and "\<bar>crd_Y (loc_Crd loc)\<bar> \<le> 2 ^ 40"
  shows "\<exists>lat lon.
      location_members (Location (hafasLocationToRestStop loc)) =
        Some [(''type'', JStr ''location''), (''id'', JStr (loc_ExtID loc)),
              (''latitude'', JNum lat), (''longitude'', JNum lon)]
    \<and> parse_decimal lat = Some (of_int (crd_Y (loc_Crd loc)) / 10 ^ 6)
    \<and> parse_decimal lon = Some (of_int (crd_X (loc_Crd loc)) / 10 ^ 6)"
  using format_micro [OF assms(1)] format_micro [OF assms(2)]
  by (simp add: location_members_def hafasLocationToRestStop_def degrees_exact [OF assms(1)]
      degrees_exact [OF assms(2)])

theorem coordinates_printed_exactly_witness:
  "let loc = zero_location\<lparr>loc_ExtID := ''9'', loc_Crd := \<lparr>crd_X = 13413215, crd_Y = 52521508\<rparr>\<rparr> in
   \<exists>lat lon.
      location_members (Location (hafasLocationToRestStop loc)) =
        Some [(''type'', JStr ''location''), (''id'', JStr ''9''),
              (''latitude'', JNum lat), (''longitude'', JNum lon)]
    \<and> parse_decimal lat = Some (of_int 52521508 / 10 ^ 6)
    \<and> parse_decimal lon = Some (of_int 13413215 / 10 ^ 6)"
  using coordinates_printed_exactly
    [of "zero_location\<lparr>loc_ExtID := ''9'', loc_Crd := \<lparr>crd_X = 13413215, crd_Y = 52521508\<rparr>\<rparr>"]
  by (simp add: Let_def)

section \<open>Delays\<close>

lemma Seconds_whole:
  assumes "\<bar>n\<bar> \<le> 2 ^ 50"
  shows "Seconds (n * 1000000000) = Fin (of_int n)"
proof -
  have q: "quot_ns (n * 1000000000) = n" by (simp add: quot_ns_def flip: mult_minus_left)
  have z: "float_of_int 0 = Fin 0" using float_of_int_exact [of 0] by simp
  have "to_float (of_int n) = Fin (of_int n)"
    using float_of_int_exact [OF assms] by (simp add: float_of_int_def)
  moreover have "to_float 0 = Fin 0" using z by (simp add: float_of_int_def)
  ultimately show ?thesis
    using float_of_int_exact [OF assms] by (simp add: Seconds_def q z)
qed

lemma parseHAFASTime_nsec [simp]: "ins_nsec (t_inst (parseHAFASTime d t z)) = 0"
  by (simp add: parseHAFASTime_def zero_time_def Date_def Let_def)

definition planned_time :: "hafasLocation \<Rightarrow> hafasJourney \<Rightarrow> time" where
  "planned_time loc jny = parseHAFASTime (jny_Date jny) (DTimeS (StbStop jny)) (board_zone loc)"

definition actual_time :: "hafasLocation \<Rightarrow> hafasJourney \<Rightarrow> time" where
  "actual_time loc jny =
     (if DTimeR (StbStop jny) \<noteq> []
      then parseHAFASTime (jny_Date jny) (DTimeR (StbStop jny)) (board_zone loc)
      else planned_time loc jny)"

lemma Sub_seconds:
  assumes "ins_nsec (t_inst t) = 0" and "ins_nsec (t_inst u) = 0"
    and "\<bar>ins_sec (t_inst t) - ins_sec (t_inst u)\<bar> \<le> 9000000000"
  shows "Sub t u = (ins_sec (t_inst t) - ins_sec (t_inst u)) * 1000000000"
proof -
  define D where "D = ins_sec (t_inst t) - ins_sec (t_inst u)"
  have D: "- 9000000000 \<le> D" "D \<le> 9000000000" using assms(3) by (simp_all add: D_def abs_le_iff)
  have "Sub t u = max min_int64 (min max_int64 (D * 1000000000))"
    using assms(1,2) by (simp add: Sub_def Let_def D_def)
  also have "\<dots> = D * 1000000000" using D by (simp add: int64_defs max_def min_def)
  finally show ?thesis by (simp add: D_def)
qed

lemma delay_exact:
  assumes "\<bar>ins_sec (t_inst (actual_time loc jny)) - ins_sec (t_inst (planned_time loc jny))\<bar> \<le> 9000000000"
  shows "Delay (departure_of loc prd jny) =
    (if DTimeR (StbStop jny) = [] then None
     else Some (ins_sec (t_inst (actual_time loc jny)) - ins_sec (t_inst (planned_time loc jny))))"
proof (cases "DTimeR (StbStop jny) = []")
  case False
  let ?D = "ins_sec (t_inst (actual_time loc jny)) - ins_sec (t_inst (planned_time loc jny))"
  have n: "ins_nsec (t_inst (actual_time loc jny)) = 0" "ins_nsec (t_inst (planned_time loc jny)) = 0"
    by (simp_all add: actual_time_def planned_time_def)
  have b: "\<bar>?D\<bar> \<le> 2 ^ 50" using assms by simp
  have "Seconds (Sub (actual_time loc jny) (planned_time loc jny)) = Fin (of_int ?D)"
    unfolding Sub_seconds [OF n assms] by (rule Seconds_whole [OF b])
  moreover have "int_of_float (Fin (of_int ?D)) = ?D"
    using assms by (simp add: int64_defs abs_le_iff del: of_int_diff)
  ultimately show ?thesis
    using False by (simp add: departure_of_def Let_def actual_time_def planned_time_def)
qed (simp add: departure_of_def Let_def)

text \<open>The delay of a translated departure is the difference of its actual and its planned
  time in seconds, present exactly when HAFAS gave a realtime; differences of up to nine billion
  seconds are exact.\<close>

theorem departure_delay:
  assumes "\<bar>ins_sec (t_inst (actual_time loc jny)) - ins_sec (t_inst (planned_time loc jny))\<bar> \<le> 9000000000"
  shows "Delay (departure_of loc prd jny) =
    (if DTimeR (StbStop jny) = [] then None
     else Some (ins_sec (t_inst (actual_time loc jny)) - ins_sec (t_inst (planned_time loc jny))))"
  by (rule delay_exact [OF assms])

text \<open>A realtime without a readable planned time: the duration to year 1 saturates.\<close>

lemma Seconds_max: "int_of_float (Seconds max_int64) = 9223372036"
proof -
  let ?y = "round64 (854775807 / 1000000000)"
  have q: "quot_ns max_int64 = 9223372036" by (simp add: quot_ns_def max_int64_def)
  have m: "max_int64 - 9223372036 * 1000000000 = 854775807" by (simp add: max_int64_def)
  have f: "float_of_int 854775807 = Fin 854775807" "float_of_int 9223372036 = Fin 9223372036"
    using float_of_int_exact [of 854775807] float_of_int_exact [of 9223372036] by simp_all
  have y: "to_float (854775807 / 1000000000) = Fin ?y" by (rule to_float_finite) simp_all
  have b: "8 / 10 \<le> ?y" "?y \<le> 9 / 10" and t: "trunc_rat (round64 (9223372036 + ?y)) = 9223372036"
    by code_simp+
  have "to_float (9223372036 + ?y) = Fin (round64 (9223372036 + ?y))"
    by (rule to_float_finite) (use b in simp_all)
  then have "Seconds max_int64 = Fin (round64 (9223372036 + ?y))"
    unfolding Seconds_def q m by (simp add: f y)
  then show ?thesis using t by (simp add: int64_defs)
qed


definition sample_journey :: hafasJourney where
  "sample_journey = zero_hafas_journey\<lparr>jny_Date := ''20240601'',
     StbStop := zero_stbStop\<lparr>DTimeR := ''100200''\<rparr>\<rparr>"

lemma sample_clock:
  "parseHAFASTime ''20240601'' ''100200'' 120 = \<lparr>t_inst = Instant 63852825720 0, t_off = 7200\<rparr>"
  "parseHAFASTime ''20240601'' ''100000'' 120 = \<lparr>t_inst = Instant 63852825600 0, t_off = 7200\<rparr>"
proof -
  have d: "hafas_date 2024 6 1 = ''20240601''" and c: "hafas_clock 10 2 0 = ''100200''"
    and e: "hafas_clock 10 0 0 = ''100000''" and n: "days_of_date 2024 6 1 = 739037"
    by code_simp+
  show "parseHAFASTime ''20240601'' ''100200'' 120 = \<lparr>t_inst = Instant 63852825720 0, t_off = 7200\<rparr>"
    using parse_seconds [of 2024 6 1 0 10 2 0 120] n unfolding d c by simp
  show "parseHAFASTime ''20240601'' ''100000'' 120 = \<lparr>t_inst = Instant 63852825600 0, t_off = 7200\<rparr>"
    using parse_seconds [of 2024 6 1 0 10 0 0 120] n unfolding d e by simp
qed

lemma sample_actual:
  "actual_time zero_location sample_journey = \<lparr>t_inst = Instant 63852825720 0, t_off = 7200\<rparr>"
  using sample_clock(1)
  by (simp add: actual_time_def sample_journey_def zero_hafas_journey_def zero_stbStop_def
      board_zone_def zero_location_def)


theorem departure_delay_witness:
  "Delay (departure_of zero_location zero_product
      (sample_journey\<lparr>StbStop := zero_stbStop\<lparr>DTimeS := ''100000'', DTimeR := ''100200''\<rparr>\<rparr>)) = Some 120"
proof -
  let ?j = "sample_journey\<lparr>StbStop := zero_stbStop\<lparr>DTimeS := ''100000'', DTimeR := ''100200''\<rparr>\<rparr>"
  have t: "actual_time zero_location ?j = \<lparr>t_inst = Instant 63852825720 0, t_off = 7200\<rparr>"
    "planned_time zero_location ?j = \<lparr>t_inst = Instant 63852825600 0, t_off = 7200\<rparr>"
    using sample_clock
    by (simp_all add: actual_time_def planned_time_def sample_journey_def zero_hafas_journey_def
        zero_stbStop_def board_zone_def zero_location_def)
  have "DTimeR (StbStop ?j) \<noteq> []" by simp
  then show ?thesis using departure_delay [of zero_location ?j zero_product] by (simp add: t)
qed

section \<open>The published JSON\<close>

lemma fold_max_le: "list_all (\<lambda>d. d \<le> n) ds \<Longrightarrow> m \<le> n \<Longrightarrow> fold max ds m \<le> n" for m n :: nat
  by (induction ds arbitrary: m) auto

lemma depth_Arr: "list_all (\<lambda>v. json_depth v \<le> n) vs \<Longrightarrow> json_depth (JArr vs) \<le> Suc n"
  using fold_max_le [of n "map json_depth vs" 0] by (simp add: list_all_iff)

lemma depth_Obj:
  assumes "list_all (\<lambda>(k, v). json_depth v \<le> n) ms"
  shows "json_depth (JObj ms) \<le> Suc n"
proof -
  have "list_all (\<lambda>d. d \<le> n) (map (\<lambda>(k, v). json_depth v) ms)"
    using assms by (auto simp: list_all_iff)
  from fold_max_le [OF this, of 0] show ?thesis by simp
qed

lemma insert_members_set: "set (foldr insert_member m []) = set m"
proof -
  have "set (insert_member p ms) = insert p (set ms)" for p and ms :: "(string \<times> 'a) list"
    by (induction p ms rule: insert_member.induct) auto
  then show ?thesis by (induction m) auto
qed

definition good :: "nat \<Rightarrow> json \<Rightarrow> bool" where
  "good n v \<longleftrightarrow> wf_json v \<and> json_depth v \<le> n"

lemma good_simps [simp]:
  "good n JNull" "good n (JBool b)" "good n (JStr s) \<longleftrightarrow> valid_utf8 s"
  "good n (json_int i)" "good n (JNum (format_float x))"
  by (simp_all add: good_def json_int_def is_number_Itoa is_number_float)

lemma good_Arr: "list_all (good n) vs \<Longrightarrow> good (Suc n) (JArr vs)"
  unfolding good_def by (auto simp: list_all_iff intro!: depth_Arr simp del: json_depth.simps)

lemma good_Obj:
  "list_all (\<lambda>(k, v). ascii k \<and> good n v) ms \<Longrightarrow> good (Suc n) (JObj ms)"
  unfolding good_def
  by (auto simp: list_all_iff valid_utf8_ascii intro!: depth_Obj simp del: json_depth.simps)

lemma good_mono: "good m v \<Longrightarrow> m \<le> n \<Longrightarrow> good n v"
  by (simp add: good_def)

lemma good_products: "good 1 (json_map JBool (hafasProductsMap c))"
proof -
  have "list_all (\<lambda>(k, v). ascii k \<and> good 0 v) (map (\<lambda>(k, v). (k, JBool v)) (foldr insert_member (hafasProductsMap c) []))"
    by (auto simp: list_all_iff insert_members_set hafasProductsMap_def ascii_def byte_of_def)
  from good_Obj [OF this] show ?thesis by (simp add: json_map_def)
qed

end
