(* ===== verification/HafasProviders.thy ===== *)
theory HafasProviders
  imports HafasTranslate
begin

text \<open>
  The data providers of \<open>hafas.go\<close>: departures, arrivals, locations, nearby and stop.  Each reads
  its parameters from the request, makes one call and translates the result; the metrics carry
  the label \<open>hafas\<close>.
\<close>

section \<open>Parameters\<close>

text \<open>The pattern \<open>if v := q.Get(name); v != "" { if n, err := Atoi(v); err == nil { \<dots> } }\<close>.\<close>

definition int_param :: "request \<Rightarrow> string \<Rightarrow> int \<Rightarrow> int" where
  "int_param r name dflt =
     (let v = query_get (Query r) name
      in if v \<noteq> [] \<and> snd (Atoi v) = None then fst (Atoi v) else dflt)"

section \<open>The common course of a provider\<close>

definition json_header :: header where
  "json_header = header_set ''Content-Type'' ''application/json'' []"

definition failed :: "go_error \<Rightarrow> fetch_result" where
  "failed err = (None, [], Some err)"

definition translated :: "go_error + bytes \<Rightarrow> fetch_result" where
  "translated res = (case res of Inl err \<Rightarrow> failed err | Inr data \<Rightarrow> (Some data, json_header, None))"

text \<open>After the call: one error event, or the duration and the request with status 200, and then
  the translation.\<close>

definition finish ::
  "request \<Rightarrow> (go_error + 'a) \<times> int \<Rightarrow> ('a \<Rightarrow> fetch_result) \<Rightarrow> fetch_result logged" where
  "finish r res translate =
     (case res of
        (Inl err, _) \<Rightarrow>
          (failed err, [UpstreamErrorsTotal ''hafas'' (Method r) (routePath r) (errorReason err)])
      | (Inr x, d) \<Rightarrow>
          (translate x, upstream_events ''hafas'' (Method r) (routePath r) d ''200''))"

definition missing :: "string \<Rightarrow> fetch_result logged" where
  "missing text = (failed (ErrorString text), [])"

section \<open>The five providers\<close>

definition HAFAS_Departures :: "HAFASClient \<Rightarrow> request \<Rightarrow> fetch_result logged" where
  "HAFAS_Departures c r =
     (let stopID = PathValue r ''id''
      in if stopID = [] then missing ''missing stop ID''
         else finish r (stationBoard c stopID ''DEP'' (int_param r ''duration'' 10))
                (\<lambda>res. translated (translateDepartures res)))"

definition HAFAS_Arrivals :: "HAFASClient \<Rightarrow> request \<Rightarrow> fetch_result logged" where
  "HAFAS_Arrivals c r =
     (let stopID = PathValue r ''id''
      in if stopID = [] then missing ''missing stop ID''
         else finish r (stationBoard c stopID ''ARR'' (int_param r ''duration'' 10))
                (\<lambda>res. translated (translateArrivals res)))"

definition HAFAS_Locations :: "HAFASClient \<Rightarrow> request \<Rightarrow> fetch_result logged" where
  "HAFAS_Locations c r =
     (let query = query_get (Query r) ''query''
      in if query = [] then missing ''missing query parameter''
         else finish r (locMatch c query (int_param r ''results'' 5))
                (\<lambda>res. translated (translateLocations (match_LocL res))))"

definition HAFAS_Nearby :: "HAFASClient \<Rightarrow> request \<Rightarrow> fetch_result logged" where
  "HAFAS_Nearby c r =
     (let latStr = query_get (Query r) ''latitude'';
          lonStr = query_get (Query r) ''longitude''
      in if latStr = [] \<or> lonStr = [] then missing ''missing latitude/longitude''
         else if snd (ParseFloat latStr) \<noteq> None then (failed (NumError latStr), [])
         else if snd (ParseFloat lonStr) \<noteq> None then (failed (NumError lonStr), [])
         else finish r (locGeoPos c (fst (ParseFloat latStr)) (fst (ParseFloat lonStr))
                          (int_param r ''distance'' 1000) (int_param r ''results'' 8))
                (\<lambda>res. translated (translateNearbyLocations (geo_LocL res))))"

definition HAFAS_Stop :: "HAFASClient \<Rightarrow> request \<Rightarrow> fetch_result logged" where
  "HAFAS_Stop c r =
     (let stopID = PathValue r ''id''
      in if stopID = [] then missing ''missing stop ID''
         else finish r (locMatchByExtID c stopID)
                (\<lambda>res. case match_LocL res of
                         [] \<Rightarrow> failed (ErrorString (''stop not found: '' @ stopID))
                       | loc # _ \<Rightarrow> translated (translateStop loc)))"

lemmas provider_defs =
  HAFAS_Departures_def HAFAS_Arrivals_def HAFAS_Locations_def HAFAS_Nearby_def HAFAS_Stop_def

section \<open>They honour the provider contract\<close>

definition coherent :: "fetch_result \<Rightarrow> bool" where
  "coherent res \<longleftrightarrow> (fst res \<noteq> None \<longleftrightarrow> snd (snd res) = None)"

lemma coherent_simps [simp]: "coherent (failed e)" "coherent (translated x)"
  by (auto simp: coherent_def failed_def translated_def split: sum.splits)

lemma finish_contract:
  assumes "\<And>x. coherent (tr x)"
  shows "coherent (fst (finish r res tr)) \<and> list_all own_event (snd (finish r res tr))"
  using assms by (auto simp: finish_def split: prod.splits sum.splits)

lemma missing_contract: "coherent (fst (missing t)) \<and> list_all own_event (snd (missing t))"
  by (simp add: missing_def)

lemma data_providerI:
  "(\<And>r. coherent (fst (fetch r)) \<and> list_all own_event (snd (fetch r))) \<Longrightarrow> data_provider fetch"
  by unfold_locales (auto simp: coherent_def)

interpretation hafas_departures: data_provider "HAFAS_Departures c" for c
  by (rule data_providerI) (simp add: HAFAS_Departures_def Let_def missing_contract finish_contract)

interpretation hafas_arrivals: data_provider "HAFAS_Arrivals c" for c
  by (rule data_providerI) (simp add: HAFAS_Arrivals_def Let_def missing_contract finish_contract)

interpretation hafas_locations: data_provider "HAFAS_Locations c" for c
  by (rule data_providerI) (simp add: HAFAS_Locations_def Let_def missing_contract finish_contract)

interpretation hafas_nearby: data_provider "HAFAS_Nearby c" for c
  by (rule data_providerI) (simp add: HAFAS_Nearby_def Let_def missing_contract finish_contract)

lemma stop_coherent:
  "coherent (case locs of [] \<Rightarrow> failed e | loc # _ \<Rightarrow> translated (translateStop loc))"
  by (cases locs) simp_all

interpretation hafas_stop: data_provider "HAFAS_Stop c" for c
  by (rule data_providerI)
    (simp add: HAFAS_Stop_def Let_def missing_contract finish_contract stop_coherent)

end
