(* ===== verification/CompactParams.thy ===== *)
theory CompactParams
  imports GoHttp
begin

text \<open>
  \<open>handle_compact_departures.go\<close>, first part: the constants, the query parameters, the cache
  key and the direction text.
\<close>

section \<open>Constants\<close>

definition compactRoutePath :: string where
  "compactRoutePath = ''/compact/departures''"

definition compactUserAgent :: string where
  "compactUserAgent = ''regelmaesig/1.0 (+https://github.com/andrewslotin/regelmaesig)''"

definition compactMaxStops :: nat where "compactMaxStops = 4"
definition compactMaxIDLen :: nat where "compactMaxIDLen = 12"
definition compactDirectionRunes :: nat where "compactDirectionRunes = 24"
definition compactPastGrace :: int where "compactPastGrace = 30 * 1000000000"
definition compactDefaultDuration :: int where "compactDefaultDuration = 30"
definition compactMinDuration :: int where "compactMinDuration = 10"
definition compactMaxDuration :: int where "compactMaxDuration = 120"
definition compactDefaultLimit :: int where "compactDefaultLimit = 6"
definition compactMinLimit :: int where "compactMinLimit = 1"
definition compactMaxLimit :: int where "compactMaxLimit = 10"

lemmas compact_constants =
  compactMaxStops_def compactMaxIDLen_def compactDirectionRunes_def compactPastGrace_def
  compactDefaultDuration_def compactMinDuration_def compactMaxDuration_def
  compactDefaultLimit_def compactMinLimit_def compactMaxLimit_def

section \<open>Stops\<close>

text \<open>Ranging over a string gives its runes; \<open>'0'\<close> is 48 and \<open>'9'\<close> is 57.\<close>

definition isCompactStopID :: "string \<Rightarrow> bool" where
  "isCompactStopID s =
     (if length s = 0 \<or> length s > compactMaxIDLen then False
      else list_all (\<lambda>c. \<not> (c < 48 \<or> c > 57)) (to_runes s))"

fun stops_loop :: "string list \<Rightarrow> string list \<Rightarrow> string list option" where
  "stops_loop [] stops = Some stops"
| "stops_loop (seg # segs) stops =
     (if seg = [] then stops_loop segs stops
      else if \<not> isCompactStopID seg then None
      else stops_loop segs (stops @ [seg]))"

definition parseCompactStops :: "string \<Rightarrow> string list option" where
  "parseCompactStops raw =
     (if raw = [] then None
      else case stops_loop (Split CHR '','' raw) [] of
             None \<Rightarrow> None
           | Some stops \<Rightarrow>
               if length stops = 0 \<or> length stops > compactMaxStops then None else Some stops)"

section \<open>Clamped integers\<close>

definition parseCompactClamped :: "string \<Rightarrow> int \<Rightarrow> int \<Rightarrow> int \<Rightarrow> int" where
  "parseCompactClamped raw dflt lo hi =
     (if raw = [] then dflt
      else let (v, err) = Atoi raw
           in if err \<noteq> None then dflt
              else if v < lo then lo
              else if v > hi then hi
              else v)"

section \<open>The cache key\<close>

definition compactCacheKey :: "string list \<Rightarrow> int \<Rightarrow> int \<Rightarrow> string" where
  "compactCacheKey stops duration limit =
     compactRoutePath @ ''?stops='' @ Join stops '','' @
     ''&duration='' @ Itoa duration @ ''&limit='' @ Itoa limit"

section \<open>Directions\<close>

definition compact_prefixes :: "string list" where
  "compact_prefixes = [''S+U '', ''U '', ''S '']"

definition strip_one :: "string \<Rightarrow> string" where
  "strip_one dir =
     (case find (HasPrefix dir) compact_prefixes of
        None \<Rightarrow> dir
      | Some p \<Rightarrow> TrimPrefix dir p)"

definition compactStripDirection :: "string \<Rightarrow> string" where
  "compactStripDirection dir =
     (let runes = to_runes (strip_one dir)
      in of_runes (if length runes > compactDirectionRunes then take compactDirectionRunes runes
                   else runes))"

section \<open>Facts about stop identifiers\<close>

definition stop_id :: "string \<Rightarrow> bool" where
  "stop_id s \<longleftrightarrow> 1 \<le> length s \<and> length s \<le> 12 \<and> list_all is_digit s"

text \<open>A sequence of more than one byte does not decode to an ASCII rune.\<close>

lemma multibyte_value:
  "194 \<le> b0 \<Longrightarrow> 128 \<le> (b0 - 192) * 64 + k"
  "224 \<le> b0 \<Longrightarrow> second_ok b0 b1 \<Longrightarrow> 128 \<le> (b0 - 224) * 4096 + (b1 - 128) * 64 + k"
  "240 \<le> b0 \<Longrightarrow> second_ok b0 b1 \<Longrightarrow> 128 \<le> (b0 - 240) * 262144 + (b1 - 128) * 4096 + (m::nat) * 64 + k"
proof -
  show "194 \<le> b0 \<Longrightarrow> 128 \<le> (b0 - 192) * 64 + k" by simp
  show "128 \<le> (b0 - 224) * 4096 + (b1 - 128) * 64 + k" if "224 \<le> b0" "second_ok b0 b1"
  proof (cases "b0 = 224")
    case True
    then have "160 \<le> b1" using that by (simp add: second_ok_def)
    then show ?thesis by simp
  qed (use that in simp)
  show "128 \<le> (b0 - 240) * 262144 + (b1 - 128) * 4096 + m * 64 + k" if "240 \<le> b0" "second_ok b0 b1"
  proof (cases "b0 = 240")
    case True
    then have "144 \<le> b1" using that by (simp add: second_ok_def)
    then show ?thesis by simp
  qed (use that in simp)
qed

lemma decode_first_byte:
  assumes "fst (decode_rune s) < 128" and "s \<noteq> []"
  shows "byte_of (hd s) = fst (decode_rune s) \<and> snd (decode_rune s) = 1"
proof -
  obtain c r where s: "s = c # r" using assms(2) by (cases s) auto
  define b0 where "b0 = byte_of c"
  obtain bs where bs: "map byte_of (take 4 s) = b0 # bs" by (simp add: s b0_def)
  have b0: "b0 < 128"
  proof (rule ccontr)
    assume n: "\<not> b0 < 128"
    consider "bs = []" | b1 where "bs = [b1]" | b1 b2 where "bs = [b1, b2]"
      | b1 b2 b3 bs' where "bs = b1 # b2 # b3 # bs'"
      by (metis neq_Nil_conv)
    then have "128 \<le> fst (decode_rune s)"
      using n unfolding decode_rune_def bs rune_error_def
      by cases (simp_all only: list.case if_False fst_conv multibyte_value simp_thms split: if_split,
          simp_all, (blast intro: multibyte_value)+)
    with assms(1) show False by simp
  qed
  then show ?thesis by (simp add: decode_rune_def bs) (simp add: s b0_def)
qed

lemma to_runes_digits: "list_all (\<lambda>c. 48 \<le> c \<and> c \<le> 57) (to_runes s) \<longleftrightarrow> list_all is_digit s"
proof
  assume "list_all is_digit s"
  then have "ascii s" by (auto simp: ascii_def is_digit_def list_all_iff)
  with \<open>list_all is_digit s\<close> show "list_all (\<lambda>c. 48 \<le> c \<and> c \<le> 57) (to_runes s)"
    by (simp add: to_runes_ascii is_digit_def list_all_iff)
next
  show "list_all (\<lambda>c. 48 \<le> c \<and> c \<le> 57) (to_runes s) \<Longrightarrow> list_all is_digit s"
  proof (induction s rule: to_runes.induct)
    case (1 s)
    show ?case
    proof (cases s)
      case (Cons c r)
      then have "48 \<le> fst (decode_rune s)" "fst (decode_rune s) \<le> 57"
        "list_all (\<lambda>c. 48 \<le> c \<and> c \<le> 57) (to_runes (drop (snd (decode_rune s)) s))"
        using 1(2) by (simp_all add: to_runes.simps [of "c # r"])
      moreover from this decode_first_byte [of s] Cons
      have "byte_of c = fst (decode_rune s)" "snd (decode_rune s) = 1" by auto
      ultimately show ?thesis using 1(1) Cons by (simp add: is_digit_def)
    qed simp
  qed
qed

lemma isCompactStopID_iff [simp]: "isCompactStopID s \<longleftrightarrow> stop_id s"
proof -
  have "list_all (\<lambda>c. \<not> (c < 48 \<or> c > 57)) (to_runes s) \<longleftrightarrow> list_all is_digit s"
    unfolding to_runes_digits [symmetric] by (simp add: not_less)
  then show ?thesis by (auto simp: isCompactStopID_def stop_id_def compact_constants Suc_le_eq)
qed

lemma stops_loop_eq:
  "stops_loop segs stops =
     (let ids = filter (\<lambda>s. s \<noteq> []) segs
      in if list_all stop_id ids then Some (stops @ ids) else None)"
  by (induction segs stops rule: stops_loop.induct) (auto simp: Let_def)

lemma parseCompactStops_eq:
  "parseCompactStops raw =
     (let ids = filter (\<lambda>s. s \<noteq> []) (Split CHR '','' raw)
      in if list_all stop_id ids \<and> 1 \<le> length ids \<and> length ids \<le> 4 then Some ids else None)"
  by (auto simp: parseCompactStops_def stops_loop_eq Let_def compact_constants Suc_le_eq)

lemma stop_id_chars: "stop_id s \<Longrightarrow> c \<in> set s \<Longrightarrow> is_digit c"
  by (simp add: stop_id_def list_all_iff)

lemma comma_not_digit: "\<not> is_digit CHR '',''" and amp_not_digit: "\<not> is_digit CHR ''&''"
  by (simp_all add: is_digit_def byte_of_def)

lemma valid_stops_split:
  assumes "list_all stop_id stops" and "stops \<noteq> []"
  shows "Split CHR '','' (Join stops '','') = stops"
  using assms comma_not_digit by (intro Split_Join) (auto simp: list_all_iff dest: stop_id_chars)

lemma ParseUint_loop_cases:
  "list_all is_digit s \<Longrightarrow>
     ParseUint_loop n s \<in> {(foldl (\<lambda>n c. 10 * n + digit_val c) n s, None), (2 ^ 64 - 1, Some ErrRange)}"
  by (induction s arbitrary: n) (auto simp del: power_numeral)

lemma Atoi_overflow:
  assumes "2 ^ 63 \<le> n"
  shows "snd (Atoi (nat_digits n)) = Some ErrRange"
proof -
  let ?s = "nat_digits n"
  have ds: "list_all is_digit ?s" by (rule nat_digits_are_digits)
  obtain c r where s: "?s = c # r" by (cases ?s) auto
  have c: "c \<noteq> CHR ''-''" "c \<noteq> CHR ''+''" using ds s by (auto simp: is_digit_def byte_of_def)
  have "ParseUint ?s \<in> {(n, None), (2 ^ 64 - 1, Some ErrRange)}"
    using ParseUint_loop_cases [OF ds, of 0] by (simp add: ParseUint_def digits_value_def [symmetric])
  then show ?thesis
    using assms c by (auto simp: Atoi_def ParseInt_def s)
qed

section \<open>Facts about the key\<close>

definition upto_amp :: "string \<Rightarrow> string" where
  "upto_amp s = takeWhile (\<lambda>c. c \<noteq> CHR ''&'') s"

lemma upto_amp_field: "CHR ''&'' \<notin> set s \<Longrightarrow> upto_amp (s @ CHR ''&'' # r) = s"
  by (induction s) (auto simp: upto_amp_def)

lemma amp_field_cancel:
  assumes "CHR ''&'' \<notin> set s" and "CHR ''&'' \<notin> set s'"
  shows "s @ CHR ''&'' # r = s' @ CHR ''&'' # r' \<longleftrightarrow> s = s' \<and> r = r'"
  using upto_amp_field [OF assms(1), of r] upto_amp_field [OF assms(2), of r'] by auto

lemma Itoa_no_amp: "CHR ''&'' \<notin> set (Itoa i)"
  using nat_digits_are_digits amp_not_digit by (auto simp: Itoa_def list_all_iff)

lemma Join_no_amp: "list_all stop_id ss \<Longrightarrow> CHR ''&'' \<notin> set (Join ss '','')"
  by (induction ss "'',''" rule: Join.induct) (auto dest: stop_id_chars simp: amp_not_digit)

lemma Join_inj:
  assumes "list_all stop_id ss" and "list_all stop_id ss'" and "ss \<noteq> []" and "ss' \<noteq> []"
  shows "Join ss '','' = Join ss' '','' \<longleftrightarrow> ss = ss'"
  using valid_stops_split [OF assms(1,3)] valid_stops_split [OF assms(2,4)] by metis

section \<open>Properties\<close>

text \<open>C29. The stops parameter is accepted exactly when its non-empty segments between commas are
  one to four identifiers of 1 to 12 ASCII digits, and these are then the stops, in order and
  with repetitions.\<close>

theorem parse_stops_iff:
  "parseCompactStops raw = Some stops \<longleftrightarrow>
     stops = filter (\<lambda>s. s \<noteq> []) (Split CHR '','' raw)
   \<and> length stops \<in> {1..4}
   \<and> list_all (\<lambda>s. length s \<in> {1..12} \<and> list_all is_digit s) stops"
proof -
  have "stop_id = (\<lambda>s. length s \<in> {1..12} \<and> list_all is_digit s)"
    by (auto simp: stop_id_def)
  then show ?thesis by (auto simp: parseCompactStops_eq Let_def)
qed

text \<open>A list of one to four stop identifiers, joined with commas, is read back as it is.\<close>

theorem parse_stops_roundtrip:
  assumes "list_all stop_id stops" and "length stops \<in> {1..4}"
  shows "parseCompactStops (Join stops '','') = Some stops"
proof -
  have "filter (\<lambda>s. s \<noteq> []) stops = stops"
    using assms(1) by (auto simp: filter_id_conv list_all_iff stop_id_def)
  then show ?thesis
    using assms valid_stops_split [of stops]
    by (cases "stops = []") (auto simp: parseCompactStops_eq Let_def)
qed

theorem parse_stops_roundtrip_witness:
  "parseCompactStops (Join [''900100003'', ''900120005''] '','') = Some [''900100003'', ''900120005'']"
  by (rule parse_stops_roundtrip) (simp_all add: stop_id_def is_digit_def byte_of_def)

text \<open>Duration and limit never fail and never leave their range: an integer that fits in 64
  bits is clamped, anything else, a number too large for 64 bits included, gives the default.\<close>

theorem clamped_range:
  "parseCompactClamped raw compactDefaultDuration compactMinDuration compactMaxDuration =
     (case Atoi raw of (v, None) \<Rightarrow> max 10 (min 120 v) | (_, Some _) \<Rightarrow> 30)
   \<and> parseCompactClamped raw compactDefaultLimit compactMinLimit compactMaxLimit =
     (case Atoi raw of (v, None) \<Rightarrow> max 1 (min 10 v) | (_, Some _) \<Rightarrow> 6)"
proof -
  have "Atoi [] = (0, Some ErrSyntax)" by (simp add: Atoi_def ParseInt_def ParseUint_def)
  then show ?thesis
    by (auto simp: parseCompactClamped_def compact_constants split: prod.splits option.splits)
qed

text \<open>Too large a duration is not clamped: from \<open>2^63\<close> on it falls back to the default of
  30 minutes.\<close>

theorem overflowing_duration_is_default:
  assumes "2 ^ 63 \<le> n"
  shows "parseCompactClamped (nat_digits n) compactDefaultDuration compactMinDuration compactMaxDuration = 30"
  using Atoi_overflow [OF assms]
  by (cases "Atoi (nat_digits n)") (simp add: parseCompactClamped_def compact_constants)

theorem overflowing_duration_is_default_witness:
  "parseCompactClamped (nat_digits (2 ^ 63)) compactDefaultDuration compactMinDuration compactMaxDuration = 30"
  by (rule overflowing_duration_is_default) simp

text \<open>C30. The cache key determines the parameters: two requests share an entry only if they ask
  for the same stops in the same order, the same duration and the same limit.\<close>

theorem cache_key_injective:
  assumes "list_all stop_id stops" and "list_all stop_id stops'" and "stops \<noteq> []" and "stops' \<noteq> []"
  shows "compactCacheKey stops d l = compactCacheKey stops' d' l' \<longleftrightarrow>
     stops = stops' \<and> d = d' \<and> l = l'"
proof -
  note na = Join_no_amp [OF assms(1)] Join_no_amp [OF assms(2)] Itoa_no_amp [of d] Itoa_no_amp [of d']
  have "compactCacheKey stops d l = compactCacheKey stops' d' l' \<longleftrightarrow>
      Join stops '','' = Join stops' '','' \<and> Itoa d = Itoa d' \<and> Itoa l = Itoa l'"
    using na by (simp add: compactCacheKey_def amp_field_cancel)
  then show ?thesis
    using Join_inj [OF assms] by (auto dest: Itoa_inj)
qed

theorem cache_key_injective_witness:
  "compactCacheKey [''1'', ''2''] 30 6 \<noteq> compactCacheKey [''2'', ''1''] 30 6"
  using cache_key_injective [of "[''1'', ''2'']" "[''2'', ''1'']" 30 6 30 6]
  by (simp add: stop_id_def is_digit_def byte_of_def)

lemma direction_runes:
  "valid_utf8 (compactStripDirection dir) \<and> to_runes (compactStripDirection dir) = take 24 (to_runes (strip_one dir))"
proof -
  let ?rs = "take 24 (to_runes (strip_one dir))"
  have "compactStripDirection dir = of_runes ?rs"
    by (simp add: compactStripDirection_def compact_constants Let_def)
  moreover have "list_all is_scalar ?rs"
    using to_runes_scalar [of "strip_one dir"] by (auto simp: list_all_iff dest: in_set_takeD)
  ultimately show ?thesis by (simp add: valid_utf8_of_runes to_runes_of_runes)
qed


end
