(* ===== verification/CompactBoard.thy ===== *)
theory CompactBoard
  imports CompactParams HafasTranslate
begin

text \<open>
  \<open>handle_compact_departures.go\<close>, second part: the wire schema of the response and of the
  upstream, the two transformations into a board, and the expiry of a response.
\<close>

section \<open>The wire schema\<close>

record compactDeparture =
  cd_Line :: string
  cd_Product :: string
  cd_Direction :: string
  cd_Time :: int
  cd_Delay :: int
  cd_Cancelled :: int
  cd_Warning :: int

record compactBoard =
  cb_ID :: string
  cb_Name :: string
  Departures :: "compactDeparture list"

record compactResponse =
  AsOf :: int
  Partial :: int
  Boards :: "compactBoard list"

definition json_compactDeparture :: "compactDeparture \<Rightarrow> json" where
  "json_compactDeparture d =
     JObj [(''l'', JStr (cd_Line d)), (''p'', JStr (cd_Product d)), (''dir'', JStr (cd_Direction d)),
           (''t'', json_int (cd_Time d)), (''dl'', json_int (cd_Delay d)),
           (''c'', json_int (cd_Cancelled d)), (''w'', json_int (cd_Warning d))]"

definition json_compactBoard :: "compactBoard \<Rightarrow> json" where
  "json_compactBoard b =
     JObj [(''id'', JStr (cb_ID b)), (''n'', JStr (cb_Name b)),
           (''d'', JArr (map json_compactDeparture (Departures b)))]"

definition json_compactResponse :: "compactResponse \<Rightarrow> json" where
  "json_compactResponse r =
     JObj [(''asOf'', json_int (AsOf r)), (''partial'', json_int (Partial r)),
           (''boards'', JArr (map json_compactBoard (Boards r)))]"

section \<open>The upstream schema\<close>

text \<open>The anonymous structs \<open>line\<close>, \<open>stop\<close> and \<open>remarks\<close> are flattened.\<close>

record compactUpstreamDeparture =
  up_When :: string
  up_PlannedWhen :: string
  up_Delay :: "float64 option"
  up_Cancelled :: bool
  up_Direction :: string
  up_LineName :: string
  up_LineProduct :: string
  up_StopName :: string
  up_Remarks :: "string list"  \<comment> \<open>the type of each remark\<close>

record compactUpstreamResponse =
  up_Departures :: "compactUpstreamDeparture list"
  RealtimeDataUpdatedAt :: int

definition zero_upstream_departure :: compactUpstreamDeparture where
  "zero_upstream_departure =
     \<lparr>up_When = [], up_PlannedWhen = [], up_Delay = None, up_Cancelled = False, up_Direction = [],
      up_LineName = [], up_LineProduct = [], up_StopName = [], up_Remarks = []\<rparr>"

definition zero_upstream :: compactUpstreamResponse where
  "zero_upstream = \<lparr>up_Departures = [], RealtimeDataUpdatedAt = 0\<rparr>"

definition dec_up_line :: "compactUpstreamDeparture decoder" where
  "dec_up_line = dec_struct
     [(''name'', field up_LineName up_LineName_update dec_string),
      (''product'', field up_LineProduct up_LineProduct_update dec_string)]"

definition dec_up_stop :: "compactUpstreamDeparture decoder" where
  "dec_up_stop = dec_struct [(''name'', field up_StopName up_StopName_update dec_string)]"

definition dec_up_remarks :: "string list decoder" where
  "dec_up_remarks = dec_list [] (dec_struct [(''type'', dec_string)])"

definition dec_upstream_departure :: "compactUpstreamDeparture decoder" where
  "dec_upstream_departure = dec_struct
     [(''when'', field up_When up_When_update dec_string),
      (''plannedWhen'', field up_PlannedWhen up_PlannedWhen_update dec_string),
      (''delay'', field up_Delay up_Delay_update (dec_ptr (Fin 0) dec_float)),
      (''cancelled'', field up_Cancelled up_Cancelled_update dec_bool),
      (''direction'', field up_Direction up_Direction_update dec_string),
      (''line'', dec_up_line),
      (''stop'', dec_up_stop),
      (''remarks'', field up_Remarks up_Remarks_update dec_up_remarks)]"

definition dec_upstream :: "compactUpstreamResponse decoder" where
  "dec_upstream = dec_struct
     [(''departures'', field up_Departures up_Departures_update
         (dec_list zero_upstream_departure dec_upstream_departure)),
      (''realtimeDataUpdatedAt'', field RealtimeDataUpdatedAt RealtimeDataUpdatedAt_update dec_int)]"

section \<open>Building a board\<close>

text \<open>\<open>int(math.Floor(f/60.0 + 0.5))\<close>\<close>

definition whole_minutes :: "float64 \<Rightarrow> int" where
  "whole_minutes f = int_of_float (float_floor (float_add (float_div f 60) (1 / 2)))"

text \<open>\<open>slices.SortStableFunc\<close> sorts stably by the given comparison, here of the times.\<close>

definition sort_departures :: "compactDeparture list \<Rightarrow> compactDeparture list" where
  "sort_departures ds = sort_key cd_Time ds"

definition set_name :: "bool \<Rightarrow> string \<Rightarrow> compactBoard \<Rightarrow> compactBoard \<times> bool" where
  "set_name nameSet name board =
     (if \<not> nameSet \<and> name \<noteq> [] then (board\<lparr>cb_Name := name\<rparr>, True) else (board, nameSet))"

definition upstream_departure :: "time \<Rightarrow> compactUpstreamDeparture \<Rightarrow> compactDeparture" where
  "upstream_departure t d =
     \<lparr>cd_Line = (if up_LineName d \<noteq> [] then up_LineName d else ''?''),
      cd_Product = up_LineProduct d,
      cd_Direction = compactStripDirection (up_Direction d),
      cd_Time = Unix t,
      cd_Delay = (case up_Delay d of None \<Rightarrow> 0 | Some f \<Rightarrow> whole_minutes f),
      cd_Cancelled = (if up_Cancelled d then 1 else 0),
      cd_Warning = (if list_ex (\<lambda>ty. ty = ''warning'') (up_Remarks d) then 1 else 0)\<rparr>"

fun upstream_loop ::
  "time \<Rightarrow> compactUpstreamDeparture list \<Rightarrow> compactBoard \<times> bool \<Rightarrow> compactBoard" where
  "upstream_loop cutoff [] (board, nameSet) = board"
| "upstream_loop cutoff (d # ds) (board, nameSet) =
     (let (board, nameSet) = set_name nameSet (up_StopName d) board;
          t = effectiveTime (up_When d) (up_PlannedWhen d)
      in if IsZero t \<or> Before t cutoff then upstream_loop cutoff ds (board, nameSet)
         else upstream_loop cutoff ds
                (board\<lparr>Departures := Departures board @ [upstream_departure t d]\<rparr>, nameSet))"

definition new_board :: "string \<Rightarrow> compactBoard" where
  "new_board ident = \<lparr>cb_ID = ident, cb_Name = ident, Departures = []\<rparr>"

definition transformCompactBoard :: "time \<Rightarrow> string \<Rightarrow> compactUpstreamResponse \<Rightarrow> compactBoard" where
  "transformCompactBoard now ident upstream =
     (let cutoff = Add now (- compactPastGrace);
          board = upstream_loop cutoff (up_Departures upstream) (new_board ident, False)
      in board\<lparr>Departures := sort_departures (Departures board)\<rparr>)"

section \<open>The same from a HAFAS board\<close>

definition hafas_departure :: "hafasLocation \<Rightarrow> hafasProduct \<Rightarrow> hafasJourney \<Rightarrow> time \<Rightarrow> time \<Rightarrow> compactDeparture" where
  "hafas_departure loc prd jny plannedWhen t =
     (let stb = StbStop jny;
          lineName = (if prod_NameS prd = [] then prod_Name prd else prod_NameS prd)
      in \<lparr>cd_Line = (if lineName = [] then ''?'' else lineName),
          cd_Product = hafasProductName (prod_Cls prd),
          cd_Direction = compactStripDirection (DirTxt jny),
          cd_Time = Unix t,
          cd_Delay = (if DTimeR stb \<noteq> [] then whole_minutes (Seconds (Sub t plannedWhen)) else 0),
          cd_Cancelled = (if DCncl stb then 1 else 0),
          cd_Warning = 0\<rparr>)"

fun hafas_loop ::
  "time \<Rightarrow> hafasStationBoardResult \<Rightarrow> hafasJourney list \<Rightarrow> compactBoard \<times> bool \<Rightarrow> compactBoard" where
  "hafas_loop cutoff res [] (board, nameSet) = board"
| "hafas_loop cutoff res (jny # js) (board, nameSet) =
     (case board_refs res jny of
        None \<Rightarrow> hafas_loop cutoff res js (board, nameSet)
      | Some (loc, prd) \<Rightarrow>
          (let (board, nameSet) = set_name nameSet (loc_Name loc) board;
               tzOffset = board_zone loc;
               plannedWhen = parseHAFASTime (jny_Date jny) (DTimeS (StbStop jny)) tzOffset;
               t = (if DTimeR (StbStop jny) \<noteq> []
                    then parseHAFASTime (jny_Date jny) (DTimeR (StbStop jny)) tzOffset
                    else plannedWhen)
           in if IsZero t \<or> Before t cutoff then hafas_loop cutoff res js (board, nameSet)
              else hafas_loop cutoff res js
                     (board\<lparr>Departures := Departures board @ [hafas_departure loc prd jny plannedWhen t]\<rparr>,
                      nameSet)))"

definition transformHAFASCompactBoard :: "time \<Rightarrow> string \<Rightarrow> hafasStationBoardResult \<Rightarrow> compactBoard" where
  "transformHAFASCompactBoard now ident res =
     (let cutoff = Add now (- compactPastGrace);
          board = hafas_loop cutoff res (JnyL res) (new_board ident, False)
      in board\<lparr>Departures := sort_departures (Departures board)\<rparr>)"

definition hafasPlanrtTS :: "string \<Rightarrow> int" where
  "hafasPlanrtTS s = fst (ParseInt s)"

section \<open>The expiry of a response\<close>

definition compactCacheExpiry :: "compactBoard list \<Rightarrow> time" where
  "compactCacheExpiry boards =
     (let maxT = fold (\<lambda>b m. fold (\<lambda>d m. if cd_Time d > m then cd_Time d else m) (Departures b) m) boards 0
      in if maxT = 0 then zero_time else time_Unix maxT)"

section \<open>What the loops compute\<close>

text \<open>Both loops name the board after the first stop name that is not empty and collect, in the
  upstream's order, the departures that are neither without a time nor past.\<close>

definition board_name :: "string \<Rightarrow> string list \<Rightarrow> string" where
  "board_name ident names = (case find (\<lambda>n. n \<noteq> []) names of None \<Rightarrow> ident | Some n \<Rightarrow> n)"

definition current :: "time \<Rightarrow> time \<Rightarrow> bool" where
  "current cutoff t \<longleftrightarrow> \<not> IsZero t \<and> \<not> Before t cutoff"

definition upstream_time :: "compactUpstreamDeparture \<Rightarrow> time" where
  "upstream_time d = effectiveTime (up_When d) (up_PlannedWhen d)"

lemma upstream_loop_eq:
  "upstream_loop cutoff ds (board, nameSet) =
     board\<lparr>cb_Name := (if nameSet then cb_Name board else board_name (cb_Name board) (map up_StopName ds)),
           Departures := Departures board @
             map (\<lambda>d. upstream_departure (upstream_time d) d)
               (filter (\<lambda>d. current cutoff (upstream_time d)) ds)\<rparr>"
proof (induction ds arbitrary: board nameSet)
  case (Cons d ds)
  show ?case
    by (cases "nameSet \<or> up_StopName d = []")
      (auto simp: Cons.IH Let_def set_name_def board_name_def current_def upstream_time_def)
qed (simp add: board_name_def)

lemma transform_upstream:
  "transformCompactBoard now ident up =
     (let cutoff = Add now (- compactPastGrace)
      in \<lparr>cb_ID = ident, cb_Name = board_name ident (map up_StopName (up_Departures up)),
          Departures = sort_departures
            (map (\<lambda>d. upstream_departure (upstream_time d) d)
               (filter (\<lambda>d. current cutoff (upstream_time d)) (up_Departures up)))\<rparr>)"
  by (simp add: transformCompactBoard_def upstream_loop_eq new_board_def Let_def)

definition admitted :: "hafasStationBoardResult \<Rightarrow> (hafasLocation \<times> hafasProduct \<times> hafasJourney) list" where
  "admitted res = translate_loop (\<lambda>loc prd jny. (loc, prd, jny)) res (JnyL res)"

lemma translate_loop_map:
  "translate_loop f res js = map (\<lambda>(loc, prd, jny). f loc prd jny)
     (translate_loop (\<lambda>loc prd jny. (loc, prd, jny)) res js)"
  by (induction js) (auto split: option.splits)

lemma hafas_loop_step:
  assumes "board_refs res jny = Some (loc, prd)"
  shows "hafas_loop cutoff res (jny # js) (board, nameSet) =
    (let (board, nameSet) = set_name nameSet (loc_Name loc) board
     in if current cutoff (actual_time loc jny)
        then hafas_loop cutoff res js
               (board\<lparr>Departures := Departures board
                  @ [hafas_departure loc prd jny (planned_time loc jny) (actual_time loc jny)]\<rparr>, nameSet)
        else hafas_loop cutoff res js (board, nameSet))"
  by (auto simp: assms Let_def current_def actual_time_def planned_time_def split: prod.splits)

lemma hafas_loop_eq:
  "hafas_loop cutoff res js (board, nameSet) =
     (let adm = translate_loop (\<lambda>loc prd jny. (loc, prd, jny)) res js
      in board\<lparr>cb_Name := (if nameSet then cb_Name board
                           else board_name (cb_Name board) (map (\<lambda>(loc, _, _). loc_Name loc) adm)),
           Departures := Departures board @
             map (\<lambda>(loc, prd, jny). hafas_departure loc prd jny (planned_time loc jny) (actual_time loc jny))
               (filter (\<lambda>(loc, prd, jny). current cutoff (actual_time loc jny)) adm)\<rparr>)"
proof (induction js arbitrary: board nameSet)
  case (Cons jny js)
  show ?case
  proof (cases "board_refs res jny")
    case (Some lp)
    then obtain loc prd where lp: "board_refs res jny = Some (loc, prd)" by (cases lp) auto
    show ?thesis
      unfolding hafas_loop_step [OF lp]
      by (cases "nameSet \<or> loc_Name loc = []"; cases "current cutoff (actual_time loc jny)")
        (auto simp: Cons.IH Let_def set_name_def board_name_def lp)
  qed (simp add: Cons.IH)
qed (simp add: board_name_def)

lemma transform_hafas:
  "transformHAFASCompactBoard now ident res =
     (let cutoff = Add now (- compactPastGrace)
      in \<lparr>cb_ID = ident, cb_Name = board_name ident (map (\<lambda>(loc, _, _). loc_Name loc) (admitted res)),
          Departures = sort_departures
            (map (\<lambda>(loc, prd, jny). hafas_departure loc prd jny (planned_time loc jny) (actual_time loc jny))
               (filter (\<lambda>(loc, prd, jny). current cutoff (actual_time loc jny)) (admitted res)))\<rparr>)"
  by (simp add: transformHAFASCompactBoard_def hafas_loop_eq new_board_def Let_def admitted_def)

section \<open>Sorting\<close>

lemma sort_departures_sorted: "sorted (map cd_Time (sort_departures ds))"
  by (simp add: sort_departures_def)

lemma sort_departures_stable:
  "filter (\<lambda>d. cd_Time d = t) (sort_departures ds) = filter (\<lambda>d. cd_Time d = t) ds"
  by (simp add: sort_departures_def sort_key_stable)

lemma set_sort_departures [simp]: "set (sort_departures ds) = set ds"
  by (simp add: sort_departures_def)

text \<open>C26. A board made from an upstream response lists exactly the departures that have a time not
  more than 30 seconds past, sorted by time, and departures of the same second in the upstream's
  order; its name is the first stop name that is not empty, or else the stop identifier.\<close>

theorem upstream_board_spec:
  "let b = transformCompactBoard now ident up;
       time_of = \<lambda>d. effectiveTime (up_When d) (up_PlannedWhen d);
       listed = map (\<lambda>d. upstream_departure (time_of d) d)
         (filter (\<lambda>d. \<not> IsZero (time_of d) \<and> \<not> Before (time_of d) (Add now (- 30000000000))) (up_Departures up))
   in cb_ID b = ident
    \<and> cb_Name b = (case find (\<lambda>n. n \<noteq> []) (map up_StopName (up_Departures up)) of None \<Rightarrow> ident | Some n \<Rightarrow> n)
    \<and> sorted (map cd_Time (Departures b))
    \<and> (\<forall>t. filter (\<lambda>d. cd_Time d = t) (Departures b) = filter (\<lambda>d. cd_Time d = t) listed)"
  by (simp add: transform_upstream Let_def sort_departures_sorted sort_departures_stable board_name_def
      upstream_time_def current_def compactPastGrace_def)

text \<open>A board made from a HAFAS result lists exactly the journeys with valid references whose
  realtime, or planned time where there is none, is not more than 30 seconds past, in the same
  order.\<close>

theorem hafas_board_spec:
  "let b = transformHAFASCompactBoard now ident res;
       listed = map (\<lambda>(loc, prd, jny). hafas_departure loc prd jny (planned_time loc jny) (actual_time loc jny))
         (filter (\<lambda>(loc, prd, jny). \<not> IsZero (actual_time loc jny)
                    \<and> \<not> Before (actual_time loc jny) (Add now (- 30000000000)))
           (translate_loop (\<lambda>loc prd jny. (loc, prd, jny)) res (JnyL res)))
   in cb_ID b = ident
    \<and> sorted (map cd_Time (Departures b))
    \<and> (\<forall>t. filter (\<lambda>d. cd_Time d = t) (Departures b) = filter (\<lambda>d. cd_Time d = t) listed)"
  by (simp add: transform_hafas Let_def sort_departures_sorted sort_departures_stable admitted_def
      current_def compactPastGrace_def)

section \<open>Delays in minutes\<close>

lemma whole_minutes_exact:
  assumes "\<bar>d\<bar> \<le> 2 ^ 40"
  shows "whole_minutes (Fin (of_int d)) = (d + 30) div 60"
proof -
  let ?x = "of_int d / 60 :: rat"
  define y where "y = round64 ?x + 1 / 2"
  have "of_int \<bar>d\<bar> \<le> (of_int (2 ^ 40) :: rat)" using assms by (simp only: of_int_le_iff)
  then have D: "\<bar>of_int d :: rat\<bar> \<le> 2 ^ 40" by simp
  have "d = 0 \<or> 1 \<le> \<bar>d\<bar>" by auto
  then have "of_int d = (0 :: rat) \<or> 1 \<le> \<bar>of_int d :: rat\<bar>"
    by (metis of_int_0 of_int_1_le_iff of_int_abs)
  then have x: "to_float ?x = Fin (round64 ?x)"
    using D by (intro to_float_finite) auto
  have "y = 0 \<or> (1 / 100 \<le> \<bar>y\<bar> \<and> \<bar>y\<bar> \<le> 2 ^ 40)"
  proof (cases "d = - 30")
    case True
    then show ?thesis using round64_half [of "- 1"] by (simp add: y_def)
  next
    case False
    then have "1 \<le> \<bar>d + 30\<bar>" "\<bar>d + 30\<bar> \<le> 2 ^ 41" using assms by auto
    then have "(1 :: rat) \<le> of_int \<bar>d + 30\<bar>" "of_int \<bar>d + 30\<bar> \<le> (of_int (2 ^ 41) :: rat)"
      by (simp_all only: of_int_le_iff of_int_1_le_iff)
    then have n: "1 \<le> \<bar>of_int (d + 30) :: rat\<bar>" "\<bar>of_int (d + 30) :: rat\<bar> \<le> 2 ^ 41"
      by (simp_all only: of_int_abs of_int_power of_int_numeral)
    have "\<bar>y - of_int (d + 30) / 60\<bar> \<le> 1 / 4096"
      using div60_error [OF assms] by (simp add: y_def add_divide_distrib)
    then show ?thesis using abs_bounds_aux [OF _ n] by simp
  qed
  then have "to_float y = Fin (round64 y)" by (intro to_float_finite) auto
  then have "float_floor (float_add (float_div (Fin (of_int d)) 60) (1 / 2)) = Fin (of_int ((d + 30) div 60))"
    using x minutes_exact [OF assms] by (simp add: y_def)
  moreover have "\<bar>(d + 30) div 60\<bar> \<le> 2 ^ 40" using assms by (auto simp: abs_le_iff)
  then have "in_int64 ((d + 30) div 60)" by (simp add: int64_defs abs_le_iff)
  ultimately show ?thesis by (simp add: whole_minutes_def)
qed



section \<open>The expiry\<close>

definition board_times :: "compactBoard list \<Rightarrow> int list" where
  "board_times boards = map cd_Time (concat (map Departures boards))"

lemma fold_later_departure:
  "fold (\<lambda>d m. if cd_Time d > m then cd_Time d else m) ds m = fold max (map cd_Time ds) m"
  by (induction ds arbitrary: m) (auto simp: max_def)

lemma fold_max_times:
  "fold (\<lambda>b m. fold (\<lambda>d m. if cd_Time d > m then cd_Time d else m) (Departures b) m) boards m
    = fold max (board_times boards) m"
  by (induction boards arbitrary: m) (simp_all add: board_times_def fold_later_departure)

lemma fold_max_Max: "fold max (xs :: int list) m = Max (insert m (set xs))"
proof (induction xs arbitrary: m)
  case (Cons x xs)
  have "fold max (x # xs) m = Max (insert (max x m) (set xs))" by (simp add: Cons.IH)
  also have "\<dots> = Max (insert m (set (x # xs)))"
    by (cases "xs = []") (simp_all add: max.assoc max.left_commute)
  finally show ?case .
qed simp



end
