(* ===== verification/PublishedBoard.thy ===== *)
theory PublishedBoard
  imports CompactBoard Expiry
begin

text \<open>
  A HAFAS station board on its way through the JSON: what \<open>translateDepartures\<close> publishes,
  read back by the two readers of the program, the expiry function of the departures route and
  the decoder of the compact endpoint.
\<close>

section \<open>Decoding a field by its name\<close>

lemma find_field_simps:
  "find_field [] k = None"
  "find_field ((k, d) # fs) k = Some d"
  "n \<noteq> k \<Longrightarrow> fold_name n \<noteq> fold_name k \<Longrightarrow> find_field ((n, d) # fs) k = find_field fs k"
  by (auto simp: find_field_def split: option.split)

text \<open>The names that occur, folded.\<close>

lemma folded_names:
  "fold_name ''tripId'' = ''TRIPID''" "fold_name ''stop'' = ''STOP''" "fold_name ''when'' = ''WHEN''"
  "fold_name ''plannedWhen'' = ''PLANNEDWHEN''" "fold_name ''delay'' = ''DELAY''"
  "fold_name ''platform'' = ''PLATFORM''" "fold_name ''direction'' = ''DIRECTION''"
  "fold_name ''line'' = ''LINE''" "fold_name ''remarks'' = ''REMARKS''"
  "fold_name ''cancelled'' = ''CANCELLED''" "fold_name ''type'' = ''TYPE''" "fold_name ''id'' = ''ID''"
  "fold_name ''name'' = ''NAME''" "fold_name ''location'' = ''LOCATION''"
  "fold_name ''products'' = ''PRODUCTS''" "fold_name ''product'' = ''PRODUCT''"
  "fold_name ''mode'' = ''MODE''" "fold_name ''departures'' = ''DEPARTURES''"
  "fold_name ''realtimeDataUpdatedAt'' = ''REALTIMEDATAUPDATEDAT''"
  by code_simp+

declare fold_name.simps [simp del]

lemmas decode_simps = dec_struct_def find_field_simps folded_names field_def
  dec_string_def dec_bool_def

section \<open>What is published for a journey\<close>

definition line_name :: "hafasProduct \<Rightarrow> string" where
  "line_name prd = (if prod_NameS prd = [] then prod_Name prd else prod_NameS prd)"

definition delay_seconds :: "hafasLocation \<Rightarrow> hafasJourney \<Rightarrow> int" where
  "delay_seconds loc jny =
     ins_sec (t_inst (actual_time loc jny)) - ins_sec (t_inst (planned_time loc jny))"

lemma departure_of_eq:
  "departure_of loc prd jny =
     \<lparr>TripID = JID jny, Stop = hafasLocationToRestStop loc,
      rd_When = (if DCncl (StbStop jny) then None else Some (Format_when (actual_time loc jny))),
      rd_PlannedWhen = Format_when (planned_time loc jny),
      Delay = (if DTimeR (StbStop jny) \<noteq> []
               then Some (int_of_float (Seconds (Sub (actual_time loc jny) (planned_time loc jny))))
               else None),
      Platform = map_option Txt (DPltfS (StbStop jny)), Direction = DirTxt jny,
      Line = \<lparr>line_Type = ''line'', line_ID = line_name prd, line_Name = line_name prd,
              Mode = hafasProductMode (hafasProductName (prod_Cls prd)),
              Product = hafasProductName (prod_Cls prd)\<rparr>,
      Cancelled = DCncl (StbStop jny)\<rparr>"
  by (simp add: departure_of_def Let_def planned_time_def actual_time_def line_name_def)

text \<open>A journey that can be published without loss: its texts are valid UTF-8, its times have a
  year that RFC 3339 can print and differ by less than \<open>2^32\<close> seconds.\<close>

definition publishable :: "hafasLocation \<Rightarrow> hafasProduct \<Rightarrow> hafasJourney \<Rightarrow> bool" where
  "publishable loc prd jny \<longleftrightarrow>
     list_all valid_utf8 [JID jny, loc_ExtID loc, loc_Name loc, DirTxt jny, prod_Name prd, prod_NameS prd]
   \<and> (case DPltfS (StbStop jny) of None \<Rightarrow> True | Some p \<Rightarrow> valid_utf8 (Txt p))
   \<and> printable_time (planned_time loc jny) \<and> printable_time (actual_time loc jny)
   \<and> \<bar>delay_seconds loc jny\<bar> < 2 ^ 32"

lemma delay_published:
  assumes "publishable loc prd jny"
  shows "Delay (departure_of loc prd jny) =
    (if DTimeR (StbStop jny) = [] then None else Some (delay_seconds loc jny))"
  using delay_exact [of loc jny prd] assms by (simp add: publishable_def delay_seconds_def)

section \<open>It is well-formed JSON\<close>

lemma ascii_digits: "list_all is_digit s \<Longrightarrow> ascii s"
  by (auto simp: ascii_def is_digit_def list_all_iff)

lemma ascii_append [simp]: "ascii (a @ b) \<longleftrightarrow> ascii a \<and> ascii b"
  by (simp add: ascii_def)

lemma ascii_Cons: "ascii (c # s) \<longleftrightarrow> byte_of c < 128 \<and> ascii s" and ascii_Nil [simp]: "ascii []"
  by (simp_all add: ascii_def)

lemma ascii_when: "ascii (Format_when t)"
proof -
  have p: "ascii (pad_nat w n)" for w n by (rule ascii_digits [OF pad_nat_digits])
  show ?thesis
    by (auto simp: Format_when_def Format_offset_def Let_def p ascii_Cons byte_of_def split: prod.splits)
qed

lemma ascii_product: "ascii (hafasProductName c)" "ascii (hafasProductMode p)"
  by (auto simp: hafasProductName_def hafasProductMode_def ascii_Cons byte_of_def)

text \<open>The members of a stop that could be marshalled, that is, whose coordinates are finite.\<close>

lemma stop_members_cases:
  assumes "stop_members (hafasLocationToRestStop loc) = Some ms"
  obtains x y where "ms =
     [(''type'', JStr ''stop''), (''id'', JStr (loc_ExtID loc)), (''name'', JStr (loc_Name loc)),
      (''location'', JObj [(''type'', JStr ''location''), (''id'', JStr (loc_ExtID loc)),
         (''latitude'', JNum (format_float x)), (''longitude'', JNum (format_float y))]),
      (''products'', json_map JBool (hafasProductsMap (loc_PCls loc)))]"
proof -
  let ?lat = "float_div (float_of_int (crd_Y (loc_Crd loc))) 1000000"
  let ?lon = "float_div (float_of_int (crd_X (loc_Crd loc))) 1000000"
  have fin: "\<exists>x. f = Fin x" if "json_float f = Some j" for f j
    using that by (cases f) auto
  obtain a b where ab: "json_float ?lat = Some a" "json_float ?lon = Some b"
    using assms
    by (auto simp: stop_members_def location_members_def hafasLocationToRestStop_def split: option.splits)
  then obtain x y where xy: "?lat = Fin x" "?lon = Fin y" using fin by metis
  then show ?thesis
    using assms that [of x y]
    by (simp add: stop_members_def location_members_def hafasLocationToRestStop_def)
qed

lemma stop_good:
  assumes "stop_members (hafasLocationToRestStop loc) = Some ms"
    and "valid_utf8 (loc_ExtID loc)" and "valid_utf8 (loc_Name loc)"
  shows "good 2 (JObj ms)"
  using assms(1)
proof (cases rule: stop_members_cases)
  case (1 x y)
  let ?loc = "[(''type'', JStr ''location''), (''id'', JStr (loc_ExtID loc)),
     (''latitude'', JNum (format_float x)), (''longitude'', JNum (format_float y))]"
  have lit: "valid_utf8 ''location''" "valid_utf8 ''stop''"
    by (simp_all add: valid_utf8_ascii ascii_Cons byte_of_def)
  have "good (Suc 0) (JObj ?loc)"
    using assms(2) lit by (intro good_Obj) (simp add: ascii_Cons byte_of_def)
  moreover have "good (Suc 0) (json_map JBool (hafasProductsMap (loc_PCls loc)))"
    using good_products by simp
  ultimately have "good (Suc (Suc 0)) (JObj ms)"
    unfolding 1 using assms(2,3) lit by (intro good_Obj) (simp add: ascii_Cons byte_of_def)
  then show ?thesis by (simp add: numeral_2_eq_2)
qed

text \<open>One entry of a board, a departure or an arrival: only the name of its direction differs.\<close>

definition texts_valid :: "hafasLocation \<Rightarrow> hafasProduct \<Rightarrow> hafasJourney \<Rightarrow> hafasPlatform option \<Rightarrow> bool" where
  "texts_valid loc prd jny platform \<longleftrightarrow>
     list_all valid_utf8 [JID jny, loc_ExtID loc, loc_Name loc, DirTxt jny, prod_Name prd, prod_NameS prd]
   \<and> (case platform of None \<Rightarrow> True | Some p \<Rightarrow> valid_utf8 (Txt p))"

lemma good_opt: "(\<And>y. x = Some y \<Longrightarrow> good n (f y)) \<Longrightarrow> good n (json_opt f x)"
  by (simp add: json_opt_def split: option.split)

lemma entry_good:
  assumes "stop_members (hafasLocationToRestStop loc) = Some ms" and "texts_valid loc prd jny pl" and "ascii k"
  shows "good 3 (JObj
    [(''tripId'', JStr (JID jny)), (''stop'', JObj ms), (''when'', json_opt JStr (map_option Format_when w)),
     (''plannedWhen'', JStr (Format_when t)), (''delay'', json_opt json_int d),
     (''platform'', json_opt JStr (map_option Txt pl)), (k, JStr (DirTxt jny)),
     (''line'', json_line \<lparr>line_Type = ''line'', line_ID = line_name prd, line_Name = line_name prd,
        Mode = hafasProductMode product, Product = hafasProductName cls\<rparr>),
     (''remarks'', JArr []), (''cancelled'', JBool c)])" (is "good 3 (JObj ?ms)")
proof -
  have u: "valid_utf8 (JID jny)" "valid_utf8 (loc_ExtID loc)" "valid_utf8 (loc_Name loc)"
    "valid_utf8 (DirTxt jny)" "valid_utf8 (line_name prd)" "\<And>p. pl = Some p \<Longrightarrow> valid_utf8 (Txt p)"
    using assms(2) by (auto simp: texts_valid_def line_name_def)
  have lit: "valid_utf8 ''line''" by (simp add: valid_utf8_ascii ascii_Cons byte_of_def)
  have stop: "good 2 (JObj ms)" by (rule stop_good [OF assms(1) u(2,3)])
  have line: "good (Suc 0) (json_line \<lparr>line_Type = ''line'', line_ID = line_name prd, line_Name = line_name prd,
      Mode = hafasProductMode product, Product = hafasProductName cls\<rparr>)"
    unfolding json_line_def
    using u(5) lit by (intro good_Obj) (simp add: ascii_Cons byte_of_def valid_utf8_ascii ascii_product)
  have rem: "good (Suc 0) (JArr [])" by (rule good_Arr) simp
  have opts: "good 2 (json_opt JStr (map_option Format_when w))" "good 2 (json_opt json_int d)"
    "good 2 (json_opt JStr (map_option Txt pl))"
    using u(6) by (auto intro!: good_opt simp: valid_utf8_ascii ascii_when)
  have "good (Suc 2) (JObj ?ms)"
    by (rule good_Obj)
      (simp add: assms(3) ascii_Cons byte_of_def stop opts u valid_utf8_ascii ascii_when
        good_mono [OF line] good_mono [OF rem])
  then show ?thesis by simp
qed

lemma when_option:
  "(if c then None else Some (Format_when t)) = map_option Format_when (if c then None else Some t)"
  by simp

lemma departure_good_texts:
  assumes "json_departure (departure_of loc prd jny) = Some v" and "texts_valid loc prd jny (DPltfS (StbStop jny))"
  shows "good 3 v"
proof -
  obtain ms where ms: "stop_members (hafasLocationToRestStop loc) = Some ms"
    using assms(1) by (auto simp: json_departure_def departure_of_eq)
  have "ascii ''direction''" by (simp add: ascii_Cons byte_of_def)
  from entry_good [OF ms assms(2) this] assms(1) ms show ?thesis
    by (auto simp: json_departure_def departure_of_eq when_option)
qed

lemma departure_good:
  "json_departure (departure_of loc prd jny) = Some v \<Longrightarrow> publishable loc prd jny \<Longrightarrow> good 3 v"
  by (erule departure_good_texts) (simp add: publishable_def texts_valid_def)

lemma arrival_good:
  assumes "json_arrival (arrival_of loc prd jny) = Some v" and "texts_valid loc prd jny (APltfS (StbStop jny))"
  shows "good 3 v"
proof -
  obtain ms where ms: "stop_members (hafasLocationToRestStop loc) = Some ms"
    using assms(1) by (auto simp: json_arrival_def arrival_of_def Let_def)
  have "ascii ''provenance''" by (simp add: ascii_Cons byte_of_def)
  from entry_good [OF ms assms(2) this] assms(1) ms show ?thesis
    by (auto simp: json_arrival_def arrival_of_def Let_def line_name_def [symmetric] when_option)
qed

section \<open>What the compact endpoint reads\<close>

definition upstream_of :: "hafasLocation \<Rightarrow> hafasProduct \<Rightarrow> hafasJourney \<Rightarrow> compactUpstreamDeparture" where
  "upstream_of loc prd jny =
     \<lparr>up_When = (if DCncl (StbStop jny) then [] else Format_when (actual_time loc jny)),
      up_PlannedWhen = Format_when (planned_time loc jny),
      up_Delay = (if DTimeR (StbStop jny) = [] then None
                  else Some (Fin (of_int (delay_seconds loc jny)))),
      up_Cancelled = DCncl (StbStop jny), up_Direction = DirTxt jny,
      up_LineName = line_name prd, up_LineProduct = hafasProductName (prod_Cls prd),
      up_StopName = loc_Name loc, up_Remarks = []\<rparr>"

lemma dec_float_Itoa:
  assumes "\<bar>i\<bar> \<le> 2 ^ 50"
  shows "dec_float (JNum (Itoa i)) old = Some (Fin (of_int i))"
proof -
  have "parse_decimal (Itoa i) = Some (of_int i)"
    using parse_format_decimal [of i 0] by (auto simp: format_decimal_def Itoa_def split: if_splits)
  moreover have "to_float (of_int i) = Fin (of_int i)"
    using float_of_int_exact [OF assms] by (simp add: float_of_int_def)
  ultimately show ?thesis by (simp add: dec_float_def ParseFloat_decimal)
qed

lemma decode_stop:
  assumes "stop_members (hafasLocationToRestStop loc) = Some ms"
  shows "dec_up_stop (JObj ms) x = Some (x\<lparr>up_StopName := loc_Name loc\<rparr>)"
  using assms by (cases rule: stop_members_cases) (simp add: dec_up_stop_def decode_simps)

lemma decode_line:
  "dec_up_line (json_line l) x = Some (x\<lparr>up_LineName := line_Name l, up_LineProduct := Product l\<rparr>)"
  by (simp add: dec_up_line_def json_line_def decode_simps)

lemma decode_departure:
  assumes "json_departure (departure_of loc prd jny) = Some v" and "publishable loc prd jny"
  shows "dec_upstream_departure v zero_upstream_departure = Some (upstream_of loc prd jny)"
proof -
  obtain ms where ms: "stop_members (hafasLocationToRestStop loc) = Some ms"
    using assms(1) by (auto simp: json_departure_def departure_of_eq)
  have v: "v = JObj
       [(''tripId'', JStr (JID jny)), (''stop'', JObj ms),
        (''when'', json_opt JStr (rd_When (departure_of loc prd jny))),
        (''plannedWhen'', JStr (Format_when (planned_time loc jny))),
        (''delay'', json_opt json_int (Delay (departure_of loc prd jny))),
        (''platform'', json_opt JStr (map_option Txt (DPltfS (StbStop jny)))),
        (''direction'', JStr (DirTxt jny)), (''line'', json_line (Line (departure_of loc prd jny))),
        (''remarks'', JArr []), (''cancelled'', JBool (DCncl (StbStop jny)))]"
    using assms(1) ms by (simp add: json_departure_def departure_of_eq)
  have w: "dec_string (json_opt JStr (rd_When (departure_of loc prd jny))) [] = Some (up_When (upstream_of loc prd jny))"
    by (simp add: departure_of_eq json_opt_def dec_string_def upstream_of_def)
  have "\<bar>delay_seconds loc jny\<bar> \<le> 2 ^ 50" using assms(2) by (simp add: publishable_def)
  then have dl: "dec_ptr (Fin 0) dec_float (json_opt json_int (Delay (departure_of loc prd jny))) None
      = Some (up_Delay (upstream_of loc prd jny))"
    using dec_float_Itoa
    by (simp add: delay_published [OF assms(2)] json_opt_def dec_ptr_def json_int_def upstream_of_def)
  have rem: "dec_up_remarks (JArr []) old = Some []" for old
    by (simp add: dec_up_remarks_def dec_list_def)
  show ?thesis
    unfolding v dec_upstream_departure_def
    by (simp add: decode_simps decode_stop [OF ms] decode_line w [unfolded dec_string_def] dl rem
        zero_upstream_departure_def)
      (simp add: upstream_of_def departure_of_eq)
qed

section \<open>The whole response\<close>

abbreviation all_publishable :: "hafasStationBoardResult \<Rightarrow> bool" where
  "all_publishable res \<equiv> list_all (\<lambda>(loc, prd, jny). publishable loc prd jny) (admitted res)"

lemma those_Some:
  "those (map f xs) = Some vs \<Longrightarrow> vs = map (\<lambda>x. the (f x)) xs \<and> list_all (\<lambda>x. f x \<noteq> None) xs"
  by (induction xs arbitrary: vs) (auto split: option.splits)

lemma translate_departures_admitted:
  "translate_loop departure_of res (JnyL res) = map (\<lambda>(loc, prd, jny). departure_of loc prd jny) (admitted res)"
  unfolding admitted_def by (rule translate_loop_map)

definition published_departures :: "hafasStationBoardResult \<Rightarrow> json list" where
  "published_departures res =
     map (\<lambda>x. the (json_departure (case x of (loc, prd, jny) \<Rightarrow> departure_of loc prd jny))) (admitted res)"

definition published :: "hafasStationBoardResult \<Rightarrow> json" where
  "published res =
     JObj [(''departures'', JArr (published_departures res)),
           (''realtimeDataUpdatedAt'', json_int (updated_at res))]"

lemma translated_is_published:
  assumes "translateDepartures res = Inr data"
  shows "data = Marshal (published res)"
    and "list_all (\<lambda>(loc, prd, jny). json_departure (departure_of loc prd jny) \<noteq> None) (admitted res)"
proof -
  obtain vs where vs:
    "those (map json_departure (translate_loop departure_of res (JnyL res))) = Some vs"
    and d: "data = Marshal (JObj [(''departures'', JArr vs),
                                  (''realtimeDataUpdatedAt'', json_int (updated_at res))])"
    using assms by (auto simp: translateDepartures_def json_departures_def Marshal_result_def json_list_def split: option.splits)
  have *: "vs = map (\<lambda>d. the (json_departure d)) (translate_loop departure_of res (JnyL res))"
    "list_all (\<lambda>d. json_departure d \<noteq> None) (translate_loop departure_of res (JnyL res))"
    using those_Some [OF vs] by auto
  show "data = Marshal (published res)"
    using d *(1) by (simp add: published_def published_departures_def translate_departures_admitted comp_def)
  show "list_all (\<lambda>(loc, prd, jny). json_departure (departure_of loc prd jny) \<noteq> None) (admitted res)"
    using *(2) by (simp add: translate_departures_admitted list_all_iff case_prod_beta)
qed

lemma published_good:
  assumes "translateDepartures res = Inr data" and "all_publishable res"
  shows "wf_json (published res)" and "json_depth (published res) \<le> max_depth"
proof -
  have "list_all (good 3) (published_departures res)"
    using translated_is_published(2) [OF assms(1)] assms(2)
    by (auto simp: published_departures_def list_all_iff intro!: departure_good)
  from good_Arr [OF this] have "good (Suc 3) (JArr (published_departures res))" .
  then have "good (Suc (Suc 3)) (published res)"
    unfolding published_def by (intro good_Obj) (simp add: ascii_Cons byte_of_def)
  then have "wf_json (published res) \<and> json_depth (published res) \<le> Suc (Suc 3)"
    by (simp add: good_def)
  then show "wf_json (published res)" "json_depth (published res) \<le> max_depth"
    by (auto simp: max_depth_def)
qed

lemma dec_elems_published:
  assumes "\<And>loc prd jny v. json_departure (departure_of loc prd jny) = Some v \<Longrightarrow>
             publishable loc prd jny \<Longrightarrow> dec v zero = Some (g loc prd jny)"
    and "translateDepartures res = Inr data" and "all_publishable res"
  shows "dec_list zero dec (JArr (published_departures res)) []
    = Some (map (\<lambda>(loc, prd, jny). g loc prd jny) (admitted res))"
proof -
  have "dec_elems zero dec (map (\<lambda>x. the (json_departure (case x of (loc, prd, jny) \<Rightarrow> departure_of loc prd jny)))
      (admitted res)) [] = Some (map (\<lambda>(loc, prd, jny). g loc prd jny) (admitted res))"
    using translated_is_published(2) [OF assms(2)] assms(1,3)
    by (intro dec_elems_map) (fastforce simp: list_all_iff)
  then show ?thesis
    by (simp add: dec_list_def published_departures_def)
qed

lemma decode_published:
  assumes "translateDepartures res = Inr data" and "all_publishable res"
  shows "Decode dec_upstream zero_upstream data =
    Some \<lparr>up_Departures = map (\<lambda>(loc, prd, jny). upstream_of loc prd jny) (admitted res),
          RealtimeDataUpdatedAt = updated_at res\<rparr>"
proof -
  have "in_int64 0" by (simp add: int64_defs)
  then have "in_int64 (updated_at res)" by (simp add: updated_at_def ParseInt_in_int64)
  then have ts: "dec_int (json_int (updated_at res)) 0 = Some (updated_at res)"
    by (simp add: json_int_def dec_int_Itoa)
  have ds: "dec_list zero_upstream_departure dec_upstream_departure (JArr (published_departures res)) []
      = Some (map (\<lambda>(loc, prd, jny). upstream_of loc prd jny) (admitted res))"
    by (rule dec_elems_published [where g = upstream_of, OF _ assms]) (rule decode_departure)
  have "Decode dec_upstream zero_upstream data = dec_upstream (published res) zero_upstream"
    unfolding Decode_def translated_is_published(1) [OF assms(1)] Marshal_def
    by (simp add: parse_first_print published_good [OF assms])
  also have "\<dots> = Some \<lparr>up_Departures = map (\<lambda>(loc, prd, jny). upstream_of loc prd jny) (admitted res),
          RealtimeDataUpdatedAt = updated_at res\<rparr>"
    unfolding dec_upstream_def published_def
    by (simp add: decode_simps zero_upstream_def ds ts)
  finally show ?thesis .
qed

section \<open>What the expiry function reads\<close>

definition item_of :: "hafasLocation \<Rightarrow> hafasProduct \<Rightarrow> hafasJourney \<Rightarrow> whenItem" where
  "item_of loc prd jny =
     \<lparr>When = (if DCncl (StbStop jny) then [] else Format_when (actual_time loc jny)),
      PlannedWhen = Format_when (planned_time loc jny)\<rparr>"

lemma decode_item:
  assumes "json_departure (departure_of loc prd jny) = Some v"
  shows "dec_whenItem v zero_whenItem = Some (item_of loc prd jny)"
proof -
  obtain ms where ms: "stop_members (hafasLocationToRestStop loc) = Some ms"
    using assms by (auto simp: json_departure_def departure_of_eq)
  show ?thesis
    using assms ms
    by (auto simp: json_departure_def departure_of_eq dec_whenItem_def zero_whenItem_def
        decode_simps item_of_def json_opt_def)
qed

lemma parse_when: "printable_time t \<Longrightarrow> parseTimestamp (Format_when t) = t"
proof -
  assume "printable_time t"
  moreover have "Format_when t \<noteq> []" by (simp add: Format_when_def Let_def split: prod.splits)
  ultimately show ?thesis by (simp add: parseTimestamp_def Parse_Format)
qed

lemma effective_when:
  assumes "printable_time a" and "printable_time p"
  shows "effectiveTime (Format_when a) (Format_when p) = (if IsZero a then p else a)"
    and "effectiveTime [] (Format_when p) = p"
  using assms by (simp_all add: effectiveTime_def parse_when) (simp add: parseTimestamp_def)

definition listed_time :: "hafasLocation \<Rightarrow> hafasJourney \<Rightarrow> time" where
  "listed_time loc jny =
     (if DCncl (StbStop jny) \<or> IsZero (actual_time loc jny) then planned_time loc jny
      else actual_time loc jny)"

lemma listed_time_read:
  assumes "publishable loc prd jny"
  shows "effectiveTime (When (item_of loc prd jny)) (PlannedWhen (item_of loc prd jny)) = listed_time loc jny"
    and "upstream_time (upstream_of loc prd jny) = listed_time loc jny"
  using assms
  by (auto simp: publishable_def item_of_def listed_time_def upstream_time_def upstream_of_def effective_when)


section \<open>The two ways from HAFAS to a compact board\<close>

lemma hafas_upstream_departure:
  assumes "publishable loc prd jny"
  shows "upstream_departure t (upstream_of loc prd jny) =
    (hafas_departure loc prd jny (planned_time loc jny) (actual_time loc jny))\<lparr>cd_Time := Unix t\<rparr>"
proof -
  have "Seconds (Sub (actual_time loc jny) (planned_time loc jny)) = Fin (of_int (delay_seconds loc jny))"
    using assms Sub_seconds [of "actual_time loc jny" "planned_time loc jny"]
      Seconds_whole [of "delay_seconds loc jny"]
    by (simp add: publishable_def printable_time_def delay_seconds_def)
  then show ?thesis
    by (simp add: upstream_departure_def upstream_of_def hafas_departure_def Let_def line_name_def)
qed

text \<open>C9. The two ways agree: for a HAFAS board without cancelled departures and with readable
  times, the compact endpoint makes the same board from the JSON that the departures route
  publishes as it makes from the HAFAS result itself, and reads the same update time.\<close>

theorem compact_paths_agree:
  assumes "translateDepartures res = Inr data" and "all_publishable res"
    and "list_all (\<lambda>(loc, prd, jny). \<not> DCncl (StbStop jny) \<and> \<not> IsZero (actual_time loc jny)) (admitted res)"
  shows "case Decode dec_upstream zero_upstream data of
      None \<Rightarrow> False
    | Some up \<Rightarrow> transformCompactBoard now ident up = transformHAFASCompactBoard now ident res
               \<and> RealtimeDataUpdatedAt up = hafasPlanrtTS (PlanrtTS res)"
proof -
  let ?up = "\<lambda>(loc, prd, jny). upstream_of loc prd jny"
  have t: "listed_time loc jny = actual_time loc jny"
    and d: "upstream_departure (actual_time loc jny) (upstream_of loc prd jny)
      = hafas_departure loc prd jny (planned_time loc jny) (actual_time loc jny)"
    and p: "upstream_time (upstream_of loc prd jny) = actual_time loc jny"
    if "(loc, prd, jny) \<in> set (admitted res)" for loc prd jny
  proof -
    have pub: "publishable loc prd jny" using assms(2) that by (auto simp: list_all_iff)
    show t: "listed_time loc jny = actual_time loc jny"
      using assms(3) that by (auto simp: list_all_iff listed_time_def)
    show p: "upstream_time (upstream_of loc prd jny) = actual_time loc jny"
      by (simp add: listed_time_read(2) [OF pub] t)
    show "upstream_departure (actual_time loc jny) (upstream_of loc prd jny)
      = hafas_departure loc prd jny (planned_time loc jny) (actual_time loc jny)"
      unfolding hafas_upstream_departure [OF pub] by (simp add: hafas_departure_def Let_def)
  qed
  have names: "map up_StopName (map ?up (admitted res)) = map (\<lambda>(loc, _, _). loc_Name loc) (admitted res)"
    by (auto simp: upstream_of_def)
  have deps: "map (\<lambda>d. upstream_departure (upstream_time d) d)
        (filter (\<lambda>d. current cutoff (upstream_time d)) (map ?up adm))
      = map (\<lambda>(loc, prd, jny). hafas_departure loc prd jny (planned_time loc jny) (actual_time loc jny))
        (filter (\<lambda>(loc, prd, jny). current cutoff (actual_time loc jny)) adm)"
    if "set adm \<subseteq> set (admitted res)" for cutoff adm
    using that by (induction adm) (auto simp: p d)
  have "updated_at res = hafasPlanrtTS (PlanrtTS res)"
    by (simp add: updated_at_def hafasPlanrtTS_def ParseInt_def ParseUint_def)
  then show ?thesis
    unfolding decode_published [OF assms(1,2)]
    by (simp add: transform_upstream transform_hafas Let_def names deps [OF order.refl] del: map_map)
qed

text \<open>A cancelled departure is where they differ.\<close>

definition single_board :: "hafasLocation \<Rightarrow> hafasProduct \<Rightarrow> hafasJourney \<Rightarrow> hafasStationBoardResult" where
  "single_board loc prd jny =
     zero_board\<lparr>Common := \<lparr>LocL = [loc], ProdL = [prd], RemL = []\<rparr>,
       JnyL := [jny\<lparr>ProdX := 0, StbStop := (StbStop jny)\<lparr>LocX := 0\<rparr>\<rparr>]\<rparr>"

lemma single_times [simp]:
  "planned_time loc (jny\<lparr>ProdX := x, StbStop := (StbStop jny)\<lparr>LocX := y\<rparr>\<rparr>) = planned_time loc jny"
  "actual_time loc (jny\<lparr>ProdX := x, StbStop := (StbStop jny)\<lparr>LocX := y\<rparr>\<rparr>) = actual_time loc jny"
  by (simp_all add: planned_time_def actual_time_def)

lemma single_admitted:
  "admitted (single_board loc prd jny) =
     [(loc, prd, jny\<lparr>ProdX := 0, StbStop := (StbStop jny)\<lparr>LocX := 0\<rparr>\<rparr>)]"
  by (simp add: admitted_def single_board_def zero_board_def board_refs_def)

text \<open>A cancelled departure is timed differently on the two ways: by its planned time when it
  comes through the published JSON (which gives no time for it), by its realtime when it comes
  from HAFAS directly.\<close>

theorem cancelled_departure_times:
  assumes "publishable loc prd jny" and "DCncl (StbStop jny)"
    and "current (Add now (- compactPastGrace)) (planned_time loc jny)"
    and "current (Add now (- compactPastGrace)) (actual_time loc jny)"
  shows "map cd_Time (Departures (transformCompactBoard now ident
           \<lparr>up_Departures = [upstream_of loc prd jny], RealtimeDataUpdatedAt = 0\<rparr>)) = [Unix (planned_time loc jny)]
    \<and> map cd_Time (Departures (transformHAFASCompactBoard now ident (single_board loc prd jny)))
        = [Unix (actual_time loc jny)]"
  using assms(2,3,4) listed_time_read(2) [OF assms(1)]
  by (simp add: transform_upstream transform_hafas single_admitted sort_departures_def Let_def
      listed_time_def upstream_departure_def hafas_departure_def)

section \<open>A concrete board\<close>

lemma translation_total:
  assumes "list_all (\<lambda>(loc, prd, jny). \<bar>crd_X (loc_Crd loc)\<bar> \<le> 2 ^ 40 \<and> \<bar>crd_Y (loc_Crd loc)\<bar> \<le> 2 ^ 40)
             (admitted res)"
  shows "translateDepartures res = Inr (Marshal (published res))"
proof -
  let ?f = "\<lambda>(loc, prd, jny). departure_of loc prd jny"
  have ok: "json_departure (departure_of loc prd jny) \<noteq> None" if "(loc, prd, jny) \<in> set (admitted res)" for loc prd jny
    using assms that
    by (auto simp: list_all_iff json_departure_def departure_of_eq stop_members_def location_members_def
        hafasLocationToRestStop_def degrees_exact)
  have "those (map json_departure (map ?f xs)) = Some (map (\<lambda>x. the (json_departure (?f x))) xs)"
    if "set xs \<subseteq> set (admitted res)" for xs
    using that by (induction xs) (auto dest!: ok)
  then show ?thesis
    by (simp add: translateDepartures_def json_departures_def Marshal_result_def json_list_def published_def
        published_departures_def translate_departures_admitted)
qed

definition sample_location :: hafasLocation where
  "sample_location = zero_location\<lparr>loc_Name := ''S+U Alexanderplatz'', loc_ExtID := ''900100003'',
     loc_Crd := \<lparr>crd_X = 13413215, crd_Y = 52521508\<rparr>\<rparr>"

definition late_journey :: "bool \<Rightarrow> hafasJourney" where
  "late_journey cancelled = sample_journey\<lparr>DirTxt := ''Pankow'',
     StbStop := zero_stbStop\<lparr>DTimeS := ''100000'', DTimeR := ''100200'', DCncl := cancelled\<rparr>\<rparr>"

lemma late_times:
  "planned_time sample_location (late_journey b) = \<lparr>t_inst = Instant 63852825600 0, t_off = 7200\<rparr>"
  "actual_time sample_location (late_journey b) = \<lparr>t_inst = Instant 63852825720 0, t_off = 7200\<rparr>"
  using sample_clock
  by (simp_all add: planned_time_def actual_time_def late_journey_def sample_journey_def
      sample_location_def board_zone_def zero_location_def zero_hafas_journey_def)

lemma century_bounds: "days_of_date 0 1 1 = - 366" "days_of_date 10000 1 1 = 3652059"
  by code_simp+

lemma late_publishable: "publishable sample_location zero_product (late_journey b)"
proof -
  have "printable_time \<lparr>t_inst = Instant 63852825600 0, t_off = 7200\<rparr>"
    "printable_time \<lparr>t_inst = Instant 63852825720 0, t_off = 7200\<rparr>"
    by (simp_all add: printable_time_def century_bounds [simplified] secs_per_day_def)
  then show ?thesis
    by (simp add: publishable_def late_times delay_seconds_def)
      (simp add: late_journey_def sample_journey_def zero_hafas_journey_def sample_location_def
        zero_location_def zero_product_def zero_stbStop_def valid_utf8_ascii ascii_Cons byte_of_def)
qed

abbreviation sample_board :: "bool \<Rightarrow> hafasStationBoardResult" where
  "sample_board b \<equiv> single_board sample_location zero_product (late_journey b)"

lemma publishable_moved:
  "publishable loc prd (jny\<lparr>ProdX := x, StbStop := (StbStop jny)\<lparr>LocX := y\<rparr>\<rparr>) = publishable loc prd jny"
  by (simp add: publishable_def delay_seconds_def)

lemma sample_board_facts:
  "translateDepartures (sample_board b) = Inr (Marshal (published (sample_board b)))"
  "all_publishable (sample_board b)"
  by (rule translation_total)
    (simp_all add: single_admitted publishable_moved late_publishable, simp add: sample_location_def)


theorem compact_paths_agree_witness:
  "case Decode dec_upstream zero_upstream (Marshal (published (sample_board False))) of
      None \<Rightarrow> False
    | Some up \<Rightarrow> transformCompactBoard zero_time ''1'' up
                 = transformHAFASCompactBoard zero_time ''1'' (sample_board False)
               \<and> RealtimeDataUpdatedAt up = hafasPlanrtTS (PlanrtTS (sample_board False))"
  by (rule compact_paths_agree [OF sample_board_facts])
    (simp add: single_admitted late_times IsZero_def, simp add: late_journey_def)

theorem cancelled_departure_times_witness:
  "map cd_Time (Departures (transformCompactBoard zero_time ''1''
       \<lparr>up_Departures = [upstream_of sample_location zero_product (late_journey True)],
        RealtimeDataUpdatedAt = 0\<rparr>)) = [1717228800]
   \<and> map cd_Time (Departures (transformHAFASCompactBoard zero_time ''1'' (sample_board True))) = [1717228920]"
proof -
  have "Add zero_time (- compactPastGrace) = \<lparr>t_inst = Instant (- 30) 0, t_off = 0\<rparr>"
    by (simp add: Add_def zero_time_def compactPastGrace_def saturate64_def max_int64_def Let_def)
  then have "current (Add zero_time (- compactPastGrace)) (planned_time sample_location (late_journey True))"
    "current (Add zero_time (- compactPastGrace)) (actual_time sample_location (late_journey True))"
    by (simp_all add: late_times current_def IsZero_def Before_def)
  moreover have "DCncl (StbStop (late_journey True))" by (simp add: late_journey_def)
  ultimately show ?thesis
    using cancelled_departure_times [OF late_publishable [of True], of zero_time "''1''"]
    by (simp add: late_times Unix_def unix_to_internal_def wrap64_def)
qed

end
