(* ===== verification/CompactHandler.thy ===== *)
theory CompactHandler
  imports PublishedBoard Proxy
begin

text \<open>
  \<open>handle_compact_departures.go\<close>, third part: the fetch of one stop, the fan-out over the stops
  with one goroutine each, and the handler.
\<close>

section \<open>Fetching one stop\<close>

text \<open>\<open>(board, updatedAt, err)\<close>: the error alone or the board and the time.\<close>

type_synonym compactFetchResult = "go_error + compactBoard \<times> int"

definition result_error :: "compactFetchResult \<Rightarrow> go_error option" where
  "result_error res = (case res of Inl e \<Rightarrow> Some e | Inr _ \<Rightarrow> None)"

definition compact_url :: "string \<Rightarrow> string \<Rightarrow> int \<Rightarrow> string" where
  "compact_url upstream ident duration =
     upstream @ ''/stops/'' @ ident @ ''/departures?duration='' @ Itoa duration @
     ''&results=20&remarks=true&language=en&suburban=true&subway=true&tram=true&bus=true&ferry=true&regional=true&express=false&pretty=false''"

definition compact_request :: "string \<Rightarrow> outbound" where
  "compact_request u =
     \<lparr>ob_method = ''GET'', ob_url = u,
      ob_header = header_set ''User-Agent'' compactUserAgent [], ob_body = []\<rparr>"

definition fetchCompactBoard ::
  "time \<Rightarrow> http_client \<Rightarrow> string \<Rightarrow> string \<Rightarrow> int \<Rightarrow> compactFetchResult logged" where
  "fetchCompactBoard now client upstream ident duration =
     (let u = compact_url upstream ident duration
      in case NewRequest client ''GET'' u of
           Some err \<Rightarrow> (Inl err, [])
         | None \<Rightarrow>
             (case Do client (compact_request u) of
                (Inl err, _) \<Rightarrow>
                  (Inl err, [UpstreamErrorsTotal ''transport_rest'' ''GET'' compactRoutePath (errorReason err)])
              | (Inr resp, d) \<Rightarrow>
                  (let evs = upstream_events ''transport_rest'' ''GET'' compactRoutePath d
                               (Itoa (StatusCode resp))
                   in if StatusCode resp < 200 \<or> StatusCode resp \<ge> 300
                      then (Inl (status_error (StatusCode resp)),
                            evs @ [UpstreamErrorsTotal ''transport_rest'' ''GET'' compactRoutePath
                                     (httpErrorReason (StatusCode resp))])
                      else case Decode_body dec_upstream zero_upstream resp of
                             Inl err \<Rightarrow> (Inl err, evs)
                           | Inr decoded \<Rightarrow>
                               (Inr (transformCompactBoard now ident decoded,
                                     RealtimeDataUpdatedAt decoded), evs))))"

definition fetchCompactBoardFromHAFAS ::
  "time \<Rightarrow> HAFASClient \<Rightarrow> string \<Rightarrow> int \<Rightarrow> compactFetchResult logged" where
  "fetchCompactBoardFromHAFAS now hafas ident duration =
     (case stationBoard hafas ident ''DEP'' duration of
        (Inl err, _) \<Rightarrow>
          (Inl err, [UpstreamErrorsTotal ''hafas'' ''GET'' compactRoutePath (errorReason err)])
      | (Inr res, d) \<Rightarrow>
          (Inr (transformHAFASCompactBoard now ident res, hafasPlanrtTS (PlanrtTS res)),
           upstream_events ''hafas'' ''GET'' compactRoutePath d ''200''))"

section \<open>One goroutine\<close>

text \<open>What the goroutines find outside: the network as each of them meets it, the clock when it
  makes its board, and the clock at the three places where the handler reads it.\<close>

record surroundings =
  rest_client :: "nat \<Rightarrow> http_client"
  rest_upstream :: string
  hafas_client :: "(nat \<Rightarrow> HAFASClient) option"  \<comment> \<open>\<open>None\<close> is the nil client\<close>
  rest_clock :: "nat \<Rightarrow> time"
  hafas_clock_at :: "nat \<Rightarrow> time"
  get_clock :: time
  asof_clock :: time
  store_clock :: time

definition span_call :: "string \<Rightarrow> compactFetchResult logged \<Rightarrow> compactFetchResult logged" where
  "span_call name fn =
     (let ((res, _), evs) = callProviderRaw name ((fst fn, result_error (fst fn)), snd fn) in (res, evs))"

definition fetch_stop :: "surroundings \<Rightarrow> int \<Rightarrow> nat \<Rightarrow> string \<Rightarrow> compactFetchResult logged" where
  "fetch_stop sur duration i ident =
     (let (res, evs) = span_call ''transport_rest''
            (fetchCompactBoard (rest_clock sur i) (rest_client sur i) (rest_upstream sur) ident duration)
      in case (result_error res, hafas_client sur) of
           (Some _, Some hafas) \<Rightarrow>
             (let (res', evs') = span_call ''hafas''
                    (fetchCompactBoardFromHAFAS (hafas_clock_at sur i) (hafas i) ident duration)
              in (res', evs @ evs'))
         | _ \<Rightarrow> (res, evs))"

section \<open>The handler\<close>

definition compactErrBadRequest :: bytes where "compactErrBadRequest = ''{\"error\":\"bad_request\"}''"
definition compactErrUpstream :: bytes where "compactErrUpstream = ''{\"error\":\"upstream\"}''"
definition compactErrInternal :: bytes where "compactErrInternal = ''{\"error\":\"internal\"}''"

definition writeCompactJSON :: "header \<Rightarrow> int \<Rightarrow> bytes \<Rightarrow> response" where
  "writeCompactJSON w code data =
     \<lparr>status = code, resp_headers = header_set ''Content-Type'' ''application/json'' w, resp_body = data\<rparr>"

text \<open>The loop over the results.\<close>

fun collect_boards ::
  "int \<Rightarrow> compactFetchResult list \<Rightarrow> compactBoard list \<times> int \<times> bool \<Rightarrow> compactBoard list \<times> int \<times> bool" where
  "collect_boards limit [] acc = acc"
| "collect_boards limit (Inl err # rs) (boards, asOf, failed) = collect_boards limit rs (boards, asOf, True)"
| "collect_boards limit (Inr (board, updated) # rs) (boards, asOf, failed) =
     (let board = (if int (length (Departures board)) > limit
                   then board\<lparr>Departures := take (nat limit) (Departures board)\<rparr> else board)
      in collect_boards limit rs
           (boards @ [board], if updated > asOf then updated else asOf, failed))"

text \<open>After \<open>wg.Wait\<close>: from the results to the response.\<close>

definition compact_respond ::
  "surroundings \<Rightarrow> string \<Rightarrow> int \<Rightarrow> compactFetchResult list \<Rightarrow> cache \<Rightarrow> (response \<times> cache) logged" where
  "compact_respond sur key limit results c =
     (let (boards, asOf, failed) = collect_boards limit results ([], 0, False)
      in if boards = []
         then (case Cache_Get (get_clock sur) key c of
                 (Some entry, c') \<Rightarrow>
                   ((writeCompactJSON (header_set ''X-Cache'' ''HIT'' []) 200 (body entry), c'), [])
               | (None, c') \<Rightarrow>
                   ((writeCompactJSON [] 502 compactErrUpstream, c'),
                    [FallbackResponsesTotal ''GET'' compactRoutePath]))
         else let asOf = (if asOf = 0 then Unix (asof_clock sur) else asOf);
                  partial = (if failed then 1 else 0)
              in case Marshal_result (Some (json_compactResponse
                        \<lparr>AsOf = asOf, Partial = partial, Boards = boards\<rparr>)) of
                   Inl err \<Rightarrow> ((writeCompactJSON [] 500 compactErrInternal, c), [])
                 | Inr data \<Rightarrow>
                     (let expires = compactCacheExpiry boards;
                          c' = (if partial = (0 :: int) \<and> After expires (store_clock sur)
                                then Cache_Set key
                                       \<lparr>statusCode = 200, header = [], body = data, expiresAt = expires\<rparr> c
                                else c)
                      in ((writeCompactJSON [] 200 data, c'), [])))"

definition compact_fetches :: "surroundings \<Rightarrow> int \<Rightarrow> string list \<Rightarrow> compactFetchResult logged list" where
  "compact_fetches sur duration ids =
     map (\<lambda>(i, ident). fetch_stop sur duration i ident) (enumerate 0 ids)"

definition compact_duration :: "request \<Rightarrow> int" where
  "compact_duration r =
     parseCompactClamped (query_get (Query r) ''duration'') compactDefaultDuration
       compactMinDuration compactMaxDuration"

definition compact_limit :: "request \<Rightarrow> int" where
  "compact_limit r =
     parseCompactClamped (query_get (Query r) ''limit'') compactDefaultLimit
       compactMinLimit compactMaxLimit"

text \<open>The goroutines run one after the other here; the section on the fan-out shows that every
  schedule gives the same results and the same events of each goroutine.\<close>

definition handleCompactDepartures ::
  "surroundings \<Rightarrow> request \<Rightarrow> cache \<Rightarrow> (response \<times> cache) logged" where
  "handleCompactDepartures sur r c =
     (case parseCompactStops (query_get (Query r) ''stops'') of
        None \<Rightarrow> ((writeCompactJSON [] 400 compactErrBadRequest, c), [])
      | Some ids \<Rightarrow>
          (let duration = compact_duration r; limit = compact_limit r;
               key = compactCacheKey ids duration limit;
               fetched = compact_fetches sur duration ids;
               (out, evs) = compact_respond sur key limit (map fst fetched) c
           in (out, SpanStart ''compact.fanout'' # concat (map snd fetched)
                    @ [SpanEnd ''compact.fanout''] @ evs)))"

section \<open>The fan-out\<close>

text \<open>
  A goroutine emits the events of its fetches one at a time and then writes its result; the
  scheduler picks any goroutine that has not finished.  A slot is \<open>None\<close> until it is written.
\<close>

datatype action = Emit event | WriteResult compactFetchResult

record fanout =
  todo :: "action list list"
  fan_results :: "compactFetchResult option list"
  fan_log :: "(nat \<times> event) list"

definition goroutine :: "compactFetchResult logged \<Rightarrow> action list" where
  "goroutine fetched = map Emit (snd fetched) @ [WriteResult (fst fetched)]"

definition fan_start :: "compactFetchResult logged list \<Rightarrow> fanout" where
  "fan_start fs = \<lparr>todo = map goroutine fs, fan_results = replicate (length fs) None, fan_log = []\<rparr>"

inductive fan_step :: "fanout \<Rightarrow> fanout \<Rightarrow> bool" where
  emit: "i < length (todo s) \<Longrightarrow> todo s ! i = Emit e # as \<Longrightarrow>
    fan_step s (s\<lparr>todo := (todo s)[i := as], fan_log := fan_log s @ [(i, e)]\<rparr>)"
| store: "i < length (todo s) \<Longrightarrow> todo s ! i = WriteResult r # as \<Longrightarrow>
    fan_step s (s\<lparr>todo := (todo s)[i := as], fan_results := (fan_results s)[i := Some r]\<rparr>)"

inductive_cases fan_stepE: "fan_step s t"

abbreviation fan_steps :: "fanout \<Rightarrow> fanout \<Rightarrow> bool" where
  "fan_steps \<equiv> fan_step\<^sup>*\<^sup>*"

text \<open>\<open>wg.Wait\<close> returns when every goroutine has finished.\<close>

definition joined :: "fanout \<Rightarrow> bool" where
  "joined s \<longleftrightarrow> list_all (\<lambda>as. as = []) (todo s)"

text \<open>The events of one goroutine in the common log.\<close>

definition log_of :: "nat \<Rightarrow> fanout \<Rightarrow> event list" where
  "log_of i s = map snd (filter (\<lambda>p. fst p = i) (fan_log s))"

text \<open>The invariant: what goroutine \<open>i\<close> has done and what it has still to do make up its
  program, and a slot is written exactly when its goroutine has finished.\<close>

definition slot_inv ::
  "compactFetchResult logged \<Rightarrow> action list \<Rightarrow> event list \<Rightarrow> compactFetchResult option \<Rightarrow> bool" where
  "slot_inv f acts done slot \<longleftrightarrow>
     (acts = [] \<and> done = snd f \<and> slot = Some (fst f))
   \<or> (\<exists>evs. acts = goroutine (fst f, evs) \<and> done @ evs = snd f \<and> slot = None)"

definition fan_inv :: "compactFetchResult logged list \<Rightarrow> fanout \<Rightarrow> bool" where
  "fan_inv fs s \<longleftrightarrow>
     length (todo s) = length fs \<and> length (fan_results s) = length fs \<and>
     (\<forall>i < length fs. slot_inv (fs ! i) (todo s ! i) (log_of i s) (fan_results s ! i))"

lemma goroutine_Cons:
  "Emit e # acts = goroutine (r, evs) \<longleftrightarrow> (\<exists>evs'. evs = e # evs' \<and> acts = goroutine (r, evs'))"
  "WriteResult r' # acts = goroutine (r, evs) \<longleftrightarrow> evs = [] \<and> r' = r \<and> acts = []"
  by (cases evs; auto simp: goroutine_def)+

lemma slot_emit: "slot_inv f (Emit e # acts) done slot \<Longrightarrow> slot_inv f acts (done @ [e]) slot"
  by (auto simp: slot_inv_def goroutine_Cons)

lemma slot_store: "slot_inv f (WriteResult r # acts) done slot \<Longrightarrow> slot_inv f acts done (Some r)"
  by (auto simp: slot_inv_def goroutine_Cons)

lemma fan_inv_start: "fan_inv fs (fan_start fs)"
  by (simp add: fan_inv_def fan_start_def log_of_def slot_inv_def)

lemma fan_inv_step: "fan_step s t \<Longrightarrow> fan_inv fs s \<Longrightarrow> fan_inv fs t"
proof (induction rule: fan_step.induct)
  case (emit i s e acts)
  then have "slot_inv (fs ! i) acts (log_of i s @ [e]) (fan_results s ! i)"
    by (metis fan_inv_def slot_emit)
  with emit show ?case by (auto simp: fan_inv_def log_of_def nth_list_update)
next
  case (store i s r acts)
  then have "slot_inv (fs ! i) acts (log_of i s) (Some r)"
    by (metis fan_inv_def slot_store)
  with store show ?case by (auto simp: fan_inv_def log_of_def nth_list_update)
qed

lemma fan_inv_steps: "fan_steps s t \<Longrightarrow> fan_inv fs s \<Longrightarrow> fan_inv fs t"
  by (induction rule: rtranclp_induct) (auto intro: fan_inv_step)

lemma joined_results:
  assumes "fan_inv fs s" and "joined s"
  shows "fan_results s = map (\<lambda>f. Some (fst f)) fs" and "i < length fs \<Longrightarrow> log_of i s = snd (fs ! i)"
proof -
  have g: "goroutine x \<noteq> []" for x by (simp add: goroutine_def)
  have *: "slot_inv (fs ! i) [] (log_of i s) (fan_results s ! i)" if "i < length fs" for i
    using assms that by (auto simp: fan_inv_def joined_def list_all_length)
  then have "fan_results s ! i = Some (fst (fs ! i)) \<and> log_of i s = snd (fs ! i)" if "i < length fs" for i
    using that g by (metis slot_inv_def)
  then show "fan_results s = map (\<lambda>f. Some (fst f)) fs" "i < length fs \<Longrightarrow> log_of i s = snd (fs ! i)"
    using assms(1) by (auto simp: fan_inv_def intro: nth_equalityI)
qed

text \<open>Every step takes one action off, and as long as one is left there is a step.\<close>

definition remaining :: "fanout \<Rightarrow> nat" where
  "remaining s = sum_list (map length (todo s))"

lemma remaining_update:
  "i < length xss \<Longrightarrow> xss ! i = x # xs \<Longrightarrow>
     sum_list (map length xss) = Suc (sum_list (map length (xss[i := xs])))"
proof (induction xss arbitrary: i)
  case (Cons ys xss)
  then show ?case by (cases i) auto
qed simp

lemma fan_step_remaining: "fan_step s t \<Longrightarrow> remaining s = Suc (remaining t)"
  by (induction rule: fan_step.induct) (simp_all add: remaining_def remaining_update)

lemma fan_progress: "\<not> joined s \<Longrightarrow> \<exists>t. fan_step s t"
proof -
  assume "\<not> joined s"
  then obtain i where i: "i < length (todo s)" "todo s ! i \<noteq> []"
    by (auto simp: joined_def list_all_length)
  then obtain a acts where a: "todo s ! i = a # acts" by (cases "todo s ! i") auto
  then show ?thesis using i(1) by (cases a) (auto intro: fan_step.intros)
qed

lemma joined_remaining: "joined s \<longleftrightarrow> remaining s = 0"
  by (auto simp: joined_def remaining_def list_all_iff)

lemma remaining_run: "(fan_step ^^ n) s t \<Longrightarrow> remaining s = n + remaining t"
  by (induction n arbitrary: t) (auto dest!: fan_step_remaining)

lemma fan_reaches: "\<exists>t. fan_steps s t \<and> joined t"
proof (induction "remaining s" arbitrary: s)
  case 0
  then show ?case using joined_remaining by auto
next
  case (Suc n)
  then have "\<not> joined s" by (simp add: joined_remaining)
  then obtain u where u: "fan_step s u" using fan_progress by blast
  then have "n = remaining u" using fan_step_remaining [OF u] Suc.hyps(2) by simp
  from Suc.hyps(1) [OF this] obtain t where "fan_steps u t" "joined t" by blast
  then show ?case using u by (blast intro: converse_rtranclp_into_rtranclp)
qed

text \<open>C15. The result of the fan-out does not depend on the schedule: whenever all goroutines have
  finished, every slot holds the result of its own stop and the log contains the events of each
  goroutine in their own order, however they are interleaved.\<close>

theorem fanout_schedule_independent:
  assumes "fan_steps (fan_start (compact_fetches sur d ids)) s" and "joined s"
  shows "fan_results s = map (\<lambda>f. Some (fst f)) (compact_fetches sur d ids)
       \<and> (\<forall>i < length ids. log_of i s = snd (fetch_stop sur d i (ids ! i)))"
proof -
  have inv: "fan_inv (compact_fetches sur d ids) s"
    using fan_inv_steps [OF assms(1) fan_inv_start] .
  have "length (compact_fetches sur d ids) = length ids" by (simp add: compact_fetches_def)
  then show ?thesis
    using joined_results [OF inv assms(2)] by (simp add: compact_fetches_def nth_enumerate_eq)
qed


section \<open>The results as the handler uses them\<close>

fun fetched_boards :: "compactFetchResult list \<Rightarrow> (compactBoard \<times> int) list" where
  "fetched_boards [] = []"
| "fetched_boards (Inl err # rs) = fetched_boards rs"
| "fetched_boards (Inr b # rs) = b # fetched_boards rs"

definition some_failed :: "compactFetchResult list \<Rightarrow> bool" where
  "some_failed rs \<longleftrightarrow> list_ex (\<lambda>res. result_error res \<noteq> None) rs"

definition cut_board :: "int \<Rightarrow> compactBoard \<Rightarrow> compactBoard" where
  "cut_board limit b = b\<lparr>Departures := take (nat limit) (Departures b)\<rparr>"

lemma collect_boards_eq:
  "collect_boards limit rs (boards, asOf, failed) =
     (boards @ map (cut_board limit \<circ> fst) (fetched_boards rs),
      fold max (map snd (fetched_boards rs)) asOf, failed \<or> some_failed rs)"
proof (induction rs arbitrary: boards asOf failed)
  case (Cons res rs)
  show ?case
  proof (cases res)
    case (Inr bu)
    obtain b u where bu: "bu = (b, u)" by (cases bu)
    have "(if int (length (Departures b)) > limit then b\<lparr>Departures := take (nat limit) (Departures b)\<rparr> else b)
        = cut_board limit b"
      by (auto simp: cut_board_def nat_le_iff)
    moreover have "(if asOf < u then u else asOf) = max u asOf" by simp
    ultimately show ?thesis
      by (simp add: Cons.IH Inr bu some_failed_def result_error_def Let_def)
  qed (simp add: Cons.IH some_failed_def result_error_def)
qed (simp add: some_failed_def)

definition response_boards :: "int \<Rightarrow> compactFetchResult list \<Rightarrow> compactBoard list" where
  "response_boards limit rs = map (cut_board limit \<circ> fst) (fetched_boards rs)"

definition response_asOf :: "time \<Rightarrow> compactFetchResult list \<Rightarrow> int" where
  "response_asOf now rs =
     (let m = fold max (map snd (fetched_boards rs)) 0 in if m = 0 then Unix now else m)"

definition response_data :: "time \<Rightarrow> int \<Rightarrow> compactFetchResult list \<Rightarrow> bytes" where
  "response_data now limit rs = Marshal (json_compactResponse
     \<lparr>AsOf = response_asOf now rs, Partial = (if some_failed rs then 1 else 0),
      Boards = response_boards limit rs\<rparr>)"

definition response_entry :: "time \<Rightarrow> int \<Rightarrow> compactFetchResult list \<Rightarrow> cache_entry" where
  "response_entry now limit rs =
     \<lparr>statusCode = 200, header = [], body = response_data now limit rs,
      expiresAt = compactCacheExpiry (response_boards limit rs)\<rparr>"

definition storable :: "time \<Rightarrow> int \<Rightarrow> compactFetchResult list \<Rightarrow> bool" where
  "storable now limit rs \<longleftrightarrow>
     \<not> some_failed rs \<and> After (compactCacheExpiry (response_boards limit rs)) now"

lemma respond_served:
  assumes "fetched_boards rs \<noteq> []"
  shows "compact_respond sur key limit rs c =
    ((writeCompactJSON [] 200 (response_data (asof_clock sur) limit rs),
      if storable (store_clock sur) limit rs
      then Cache_Set key (response_entry (asof_clock sur) limit rs) c else c), [])"
  using assms
  by (simp add: compact_respond_def collect_boards_eq Let_def response_data_def response_entry_def
      Marshal_result_def response_asOf_def response_boards_def storable_def)

lemma respond_failed:
  assumes "fetched_boards rs = []"
  shows "compact_respond sur key limit rs c =
    (case fst (Cache_Get (get_clock sur) key c) of
       Some e \<Rightarrow> ((writeCompactJSON (header_set ''X-Cache'' ''HIT'' []) 200 (body e),
                  snd (Cache_Get (get_clock sur) key c)), [])
     | None \<Rightarrow> ((writeCompactJSON [] 502 compactErrUpstream, snd (Cache_Get (get_clock sur) key c)),
               [FallbackResponsesTotal ''GET'' compactRoutePath]))"
  using assms
  by (simp add: compact_respond_def collect_boards_eq split: prod.splits option.splits)

definition requested_stops :: "request \<Rightarrow> string list option" where
  "requested_stops r = parseCompactStops (query_get (Query r) ''stops'')"

definition compact_key :: "request \<Rightarrow> string" where
  "compact_key r = (case requested_stops r of
     None \<Rightarrow> [] | Some ids \<Rightarrow> compactCacheKey ids (compact_duration r) (compact_limit r))"

definition stop_results :: "surroundings \<Rightarrow> request \<Rightarrow> compactFetchResult list" where
  "stop_results sur r = (case requested_stops r of
     None \<Rightarrow> [] | Some ids \<Rightarrow> map fst (compact_fetches sur (compact_duration r) ids))"

lemma handle_valid:
  assumes "requested_stops r = Some ids"
  shows "fst (handleCompactDepartures sur r c) =
    fst (compact_respond sur (compact_key r) (compact_limit r) (stop_results sur r) c)"
  using assms
  by (simp add: handleCompactDepartures_def requested_stops_def compact_key_def stop_results_def
      Let_def split: prod.splits)

lemma handle_invalid:
  assumes "requested_stops r = None"
  shows "handleCompactDepartures sur r c = ((writeCompactJSON [] 400 compactErrBadRequest, c), [])"
  using assms by (simp add: handleCompactDepartures_def requested_stops_def)

lemma handle_served:
  assumes "fetched_boards (stop_results sur r) \<noteq> []"
  shows "fst (handleCompactDepartures sur r c) =
    (writeCompactJSON [] 200 (response_data (asof_clock sur) (compact_limit r) (stop_results sur r)),
     if storable (store_clock sur) (compact_limit r) (stop_results sur r)
     then Cache_Set (compact_key r) (response_entry (asof_clock sur) (compact_limit r) (stop_results sur r)) c
     else c)"
proof -
  obtain ids where "requested_stops r = Some ids"
    using assms by (cases "requested_stops r") (auto simp: stop_results_def)
  then show ?thesis by (simp add: handle_valid respond_served [OF assms])
qed

lemma handle_all_failed:
  assumes "requested_stops r \<noteq> None" and "fetched_boards (stop_results sur r) = []"
  shows "fst (handleCompactDepartures sur r c) =
    (case fst (Cache_Get (get_clock sur) (compact_key r) c) of
       Some e \<Rightarrow> writeCompactJSON (header_set ''X-Cache'' ''HIT'' []) 200 (body e)
     | None \<Rightarrow> writeCompactJSON [] 502 compactErrUpstream,
     snd (Cache_Get (get_clock sur) (compact_key r) c))"
proof -
  obtain ids where "requested_stops r = Some ids" using assms(1) by auto
  then show ?thesis
    by (simp add: handle_valid respond_failed [OF assms(2)] split: option.splits)
qed

section \<open>What one stop gives\<close>

lemma fetch_stop_result:
  "fst (fetch_stop sur d i ident) =
     (case fst (fetchCompactBoard (rest_clock sur i) (rest_client sur i) (rest_upstream sur) ident d) of
        Inr res \<Rightarrow> Inr res
      | Inl e \<Rightarrow> (case hafas_client sur of
                    None \<Rightarrow> Inl e
                  | Some hafas \<Rightarrow> fst (fetchCompactBoardFromHAFAS (hafas_clock_at sur i) (hafas i) ident d)))"
  by (auto simp: fetch_stop_def span_call_def callProviderRaw_def result_error_def Let_def
      split: prod.splits sum.splits option.splits)

text \<open>A stop is asked from HAFAS only when transport.rest failed and HAFAS is configured; then
  the answer of HAFAS counts, its error included.\<close>

theorem stop_fetched_from:
  "fst (fetch_stop sur d i ident) =
     (case fst (fetchCompactBoard (rest_clock sur i) (rest_client sur i) (rest_upstream sur) ident d) of
        Inr res \<Rightarrow> Inr res
      | Inl e \<Rightarrow> (case hafas_client sur of
                    None \<Rightarrow> Inl e
                  | Some hafas \<Rightarrow> fst (fetchCompactBoardFromHAFAS (hafas_clock_at sur i) (hafas i) ident d)))"
  by (rule fetch_stop_result)

definition board_ok :: "string \<Rightarrow> compactBoard \<Rightarrow> bool" where
  "board_ok ident b \<longleftrightarrow> cb_ID b = ident \<and> sorted (map cd_Time (Departures b))"

lemma fetched_ok:
  assumes "fst (fetch_stop sur d i ident) = Inr (b, u)"
  shows "board_ok ident b"
proof -
  have rest: "board_ok ident b" if "fst (fetchCompactBoard now cl up ident d) = Inr (b, u)" for now cl up b u
    using that
    by (auto simp: fetchCompactBoard_def Let_def board_ok_def transform_upstream sort_departures_sorted
        split: option.splits prod.splits sum.splits if_splits)
  have hafas: "board_ok ident b" if "fst (fetchCompactBoardFromHAFAS now h ident d) = Inr (b, u)" for now h b u
    using that
    by (auto simp: fetchCompactBoardFromHAFAS_def Let_def board_ok_def transform_hafas sort_departures_sorted
        split: prod.splits sum.splits)
  show ?thesis
    using assms unfolding fetch_stop_result by (auto dest: rest hafas split: sum.splits option.splits)
qed

lemma boards_of_enumeration:
  "map cb_ID (response_boards limit (map fst (map (\<lambda>(i, ident). fetch_stop sur d i ident) (enumerate n ids))))
    = map snd (filter (\<lambda>(i, ident). result_error (fst (fetch_stop sur d i ident)) = None) (enumerate n ids))
   \<and> list_all (\<lambda>b. length (Departures b) \<le> nat limit \<and> sorted (map cd_Time (Departures b)))
       (response_boards limit (map fst (map (\<lambda>(i, ident). fetch_stop sur d i ident) (enumerate n ids))))"
proof (induction ids arbitrary: n)
  case (Cons ident ids)
  show ?case
  proof (cases "fst (fetch_stop sur d n ident)")
    case (Inr bu)
    obtain b u where bu: "bu = (b, u)" by (cases bu)
    have "board_ok ident b" using fetched_ok Inr bu by simp
    then show ?thesis
      using Cons.IH [of "Suc n"] Inr bu
      by (auto simp: response_boards_def result_error_def board_ok_def cut_board_def take_map [symmetric] sorted_wrt_take)
  qed (use Cons.IH [of "Suc n"] in \<open>simp add: response_boards_def result_error_def\<close>)
qed (simp add: response_boards_def)

lemma limit_range: "1 \<le> compact_limit r \<and> compact_limit r \<le> 10"
  by (auto simp: compact_limit_def parseCompactClamped_def compact_constants Let_def split: prod.splits)

lemma duration_range: "10 \<le> compact_duration r \<and> compact_duration r \<le> 120"
  by (auto simp: compact_duration_def parseCompactClamped_def compact_constants Let_def split: prod.splits)


section \<open>Responses\<close>

text \<open>C23. The response is a 400 exactly for invalid stops; a 502 exactly when every stop failed and
  no unexpired response is stored under the key; and otherwise a 200. It is JSON in every
  case.\<close>

theorem compact_status_codes:
  "let resp = fst (fst (handleCompactDepartures sur r c)) in
   status resp =
     (if parseCompactStops (query_get (Query r) ''stops'') = None then 400
      else if fetched_boards (stop_results sur r) = []
              \<and> fst (Cache_Get (get_clock sur) (compact_key r) c) = None then 502
      else 200)
   \<and> header_values (resp_headers resp) ''Content-Type'' = [''application/json'']"
proof (cases "requested_stops r = None")
  case True
  then show ?thesis
    by (simp add: handle_invalid writeCompactJSON_def header_values_def requested_stops_def Let_def)
next
  case False
  show ?thesis
  proof (cases "fetched_boards (stop_results sur r) = []")
    case True
    show ?thesis
      using False unfolding handle_all_failed [OF False True] requested_stops_def
      by (auto simp: writeCompactJSON_def header_values_def True split: option.splits)
  next
    case served: False
    show ?thesis
      using False served unfolding handle_served [OF served] requested_stops_def
      by (auto simp: writeCompactJSON_def header_values_def)
  qed
qed

text \<open>C24. A 200 that was not replayed carries the boards of the stops that answered, cut to the
  limit, the flag that some stop failed, and the latest of the update times that are positive, or
  else the time of the server.\<close>

theorem compact_body:
  assumes "fetched_boards (stop_results sur r) \<noteq> []"
  shows "let rs = stop_results sur r; us = map snd (fetched_boards rs);
             latest = Max (insert 0 (set us)) in
    resp_body (fst (fst (handleCompactDepartures sur r c))) = Marshal (json_compactResponse
      \<lparr>AsOf = (if latest = 0 then Unix (asof_clock sur) else latest),
       Partial = (if list_ex (\<lambda>res. result_error res \<noteq> None) rs then 1 else 0),
       Boards = map (\<lambda>(b, _). b\<lparr>Departures := take (nat (compact_limit r)) (Departures b)\<rparr>) (fetched_boards rs)\<rparr>)"
proof -
  have cut: "cut_board l \<circ> fst = (\<lambda>(b, _). b\<lparr>Departures := take (nat l) (Departures b)\<rparr>)" for l
    by (auto simp: cut_board_def fun_eq_iff)
  show ?thesis
    by (simp add: handle_served [OF assms] writeCompactJSON_def response_data_def response_asOf_def
        fold_max_Max some_failed_def response_boards_def Let_def cut)
qed

section \<open>The cache\<close>

lemma compact_touches:
  "touches (compact_key r) c (snd (fst (handleCompactDepartures sur r c)))"
proof (cases "requested_stops r = None")
  case False
  show ?thesis
  proof (cases "fetched_boards (stop_results sur r) = []")
    case True
    show ?thesis unfolding handle_all_failed [OF False True] by (auto simp: touches_def)
  next
    case served: False
    show ?thesis unfolding handle_served [OF served] by (auto simp: touches_def)
  qed
qed (simp add: handle_invalid touches_def)

text \<open>C22. Only complete responses are stored: an entry that a request adds stands under the key of
  its own parameters, all its stops were fetched, its body is the body of this response, and it
  expires with the last departure shown, which lies in the future.\<close>

theorem only_complete_responses_stored:
  assumes "cache_inv c"
    and "map_of (abs_cache (snd (fst (handleCompactDepartures sur r c)))) k = Some e"
  shows "map_of (abs_cache c) k = Some e
    \<or> (k = compact_key r
       \<and> list_all (\<lambda>res. result_error res = None) (stop_results sur r)
       \<and> body e = resp_body (fst (fst (handleCompactDepartures sur r c))) \<and> statusCode e = 200
       \<and> expiresAt e = compactCacheExpiry (response_boards (compact_limit r) (stop_results sur r))
       \<and> After (expiresAt e) (store_clock sur))"
proof (cases "fetched_boards (stop_results sur r) = []")
  case True
  show ?thesis
  proof (cases "requested_stops r = None")
    case False
    have "snd (fst (handleCompactDepartures sur r c)) = snd (Cache_Get (get_clock sur) (compact_key r) c)"
      by (simp add: handle_all_failed [OF False True])
    then show ?thesis
      using assms(2) lru.get_sub [OF assms(1), of "get_clock sur" "compact_key r" k] by auto
  qed (use assms(2) in \<open>simp add: handle_invalid\<close>)
next
  case served: False
  show ?thesis
  proof (cases "storable (store_clock sur) (compact_limit r) (stop_results sur r)")
    case True
    let ?e = "response_entry (asof_clock sur) (compact_limit r) (stop_results sur r)"
    have "map_of (abs_cache (Cache_Set (compact_key r) ?e c)) k = Some e"
      using assms(2) True by (simp add: handle_served [OF served])
    from lru.put_cases [OF assms(1) this] show ?thesis
      using True by (auto simp: handle_served [OF served] response_entry_def writeCompactJSON_def
          storable_def some_failed_def list_ex_iff list_all_iff)
  qed (use assms(2) in \<open>simp add: handle_served [OF served]\<close>)
qed

text \<open>C5. Stale if error: after a complete response with a departure in the future, a request
  for the same stops, duration and limit that reaches no stop gets the same body, until the last
  departure in it has passed, as long as the cache has room for the other keys used since.\<close>

theorem compact_stale_if_error:
  assumes "cache_inv c" and "fetched_boards (stop_results sur r) \<noteq> []"
    and "storable (store_clock sur) (compact_limit r) (stop_results sur r)"
    and "\<forall>x \<in> set xs. spares (compact_key r)
           (response_entry (asof_clock sur) (compact_limit r) (stop_results sur r)) x"
    and "int (card (op_key ` set xs - {compact_key r})) < cache_cap c"
    and "requested_stops r' \<noteq> None" and "compact_key r' = compact_key r"
    and "fetched_boards (stop_results sur' r') = []"
    and "\<not> After (get_clock sur') (compactCacheExpiry (response_boards (compact_limit r) (stop_results sur r)))"
  shows "let first = fst (handleCompactDepartures sur r c);
             later = fst (fst (handleCompactDepartures sur' r' (cache_run xs (snd first))))
         in status later = 200 \<and> resp_body later = resp_body (fst first)
          \<and> header_values (resp_headers later) ''X-Cache'' = [''HIT'']"
proof -
  let ?e = "response_entry (asof_clock sur) (compact_limit r) (stop_results sur r)"
  let ?c = "cache_run xs (Cache_Set (compact_key r) ?e c)"
  have inv: "cache_inv ?c" using run_refines [OF Set_inv [OF assms(1)]] by simp
  have stored: "map_of (abs_cache ?c) (compact_key r) = Some ?e"
    by (rule Cache_survives [OF assms(1,4,5)])
  have "\<not> expired (get_clock sur') ?e" using assms(9) by (simp add: expired_def response_entry_def)
  then have "fst (Cache_Get (get_clock sur') (compact_key r') ?c) = Some ?e"
    by (simp add: lru.get_result [OF inv] assms(7) stored)
  then show ?thesis
    by (simp add: handle_served [OF assms(2)] handle_all_failed [OF assms(6,8)] assms(3) Let_def)
      (simp add: writeCompactJSON_def header_values_def response_entry_def)
qed

text \<open>And not longer: once the last departure of the stored response has passed, a request
  that reaches no stop is answered 502, whatever is in the cache beside it.\<close>

theorem compact_expired_is_502:
  assumes "cache_inv c" and "requested_stops r \<noteq> None" and "fetched_boards (stop_results sur r) = []"
    and "\<And>e. map_of (abs_cache c) (compact_key r) = Some e \<Longrightarrow> expired (get_clock sur) e"
  shows "status (fst (fst (handleCompactDepartures sur r c))) = 502
    \<and> map_of (abs_cache (snd (fst (handleCompactDepartures sur r c)))) (compact_key r) = None"
proof -
  have "fst (Cache_Get (get_clock sur) (compact_key r) c) = None"
    using assms(4) by (auto simp: lru.get_result [OF assms(1)] split: option.splits)
  moreover have "map_of (abs_cache (snd (Cache_Get (get_clock sur) (compact_key r) c))) (compact_key r) = None"
    using assms(4) by (auto simp: lru.get_frame [OF assms(1)] split: option.splits)
  ultimately show ?thesis
    by (simp add: handle_all_failed [OF assms(2,3)] writeCompactJSON_def)
qed

section \<open>Events\<close>

lemma span_call_balanced: "spans_balanced evs \<Longrightarrow> spans_balanced (snd (span_call n (res, evs)))"
proof -
  assume "spans_balanced evs"
  then have "spans_balanced (evs @ span_error m err)" for m err
    by (rule balanced_append) (auto simp: span_error_def split: option.splits intro!: balanced_no_spans)
  from balanced_span [OF this] show ?thesis
    by (simp add: span_call_def callProviderRaw_def Let_def)
qed

lemma fetch_own:
  "list_all own_event (snd (fetchCompactBoard now cl up ident d))"
  "list_all own_event (snd (fetchCompactBoardFromHAFAS now h ident d))"
  by (auto simp: fetchCompactBoard_def fetchCompactBoardFromHAFAS_def Let_def
      split: option.splits prod.splits sum.splits)

lemma own_balanced: "list_all own_event evs \<Longrightarrow> spans_balanced evs"
  by (intro balanced_no_spans) (auto simp: own_event_def list_all_iff)

lemma span_call_own: "list_all own_event (snd f) \<Longrightarrow> spans_balanced (snd (span_call n f))"
  using span_call_balanced [of "snd f" n "fst f"] own_balanced by simp

lemma fetch_stop_balanced: "spans_balanced (snd (fetch_stop sur d i ident))"
proof -
  obtain res evs where f: "span_call ''transport_rest'' (fetchCompactBoard (rest_clock sur i)
      (rest_client sur i) (rest_upstream sur) ident d) = (res, evs)"
    by fastforce
  have e: "spans_balanced evs" using span_call_own [OF fetch_own(1)] f by (metis snd_conv)
  show ?thesis
  proof (cases "result_error res = None \<or> hafas_client sur = None")
    case True
    then show ?thesis using e by (auto simp: fetch_stop_def f split: option.splits)
  next
    case False
    then obtain err h where "result_error res = Some err" "hafas_client sur = Some h" by auto
    then have "snd (fetch_stop sur d i ident) = evs @
        snd (span_call ''hafas'' (fetchCompactBoardFromHAFAS (hafas_clock_at sur i) (h i) ident d))"
      by (simp add: fetch_stop_def f split: prod.splits)
    then show ?thesis using e span_call_own [OF fetch_own(2)] by (simp add: balanced_append)
  qed
qed

lemma respond_events:
  "snd (compact_respond sur key limit rs c) =
     (if fetched_boards rs = [] \<and> fst (Cache_Get (get_clock sur) key c) = None
      then [FallbackResponsesTotal ''GET'' compactRoutePath] else [])"
  by (cases "fetched_boards rs = []") (simp_all add: respond_failed respond_served split: option.splits)

lemma balanced_concat: "list_all spans_balanced evss \<Longrightarrow> spans_balanced (concat evss)"
  by (induction evss) (auto intro: balanced_append)

lemma handle_events:
  assumes "requested_stops r = Some ids"
  shows "snd (handleCompactDepartures sur r c) =
    (SpanStart ''compact.fanout'' # concat (map snd (compact_fetches sur (compact_duration r) ids))
       @ [SpanEnd ''compact.fanout''])
    @ snd (compact_respond sur (compact_key r) (compact_limit r) (stop_results sur r) c)"
  using assms
  by (auto simp: handleCompactDepartures_def requested_stops_def compact_key_def stop_results_def
      Let_def split: prod.splits)

lemma compact_balanced: "spans_balanced (snd (handleCompactDepartures sur r c))"
proof (cases "requested_stops r")
  case (Some ids)
  have "spans_balanced (concat (map snd (compact_fetches sur (compact_duration r) ids)))"
    by (rule balanced_concat) (auto simp: compact_fetches_def list_all_iff fetch_stop_balanced)
  then show ?thesis
    unfolding handle_events [OF Some]
    by (intro balanced_append balanced_span) (simp_all add: respond_events balanced_other)
qed (simp add: handle_invalid)

lemma fetch_stop_no_fallback: "count_events is_fallback (snd (fetch_stop sur d i ident)) = 0"
proof -
  have own: "count_events is_fallback evs = 0" if "list_all own_event evs" for evs
    using that by (auto simp: count_events_def own_event_def list_all_iff filter_empty_conv)
  have call: "count_events is_fallback (snd (span_call n f)) = 0" if "list_all own_event (snd f)" for n f
    using own [OF that]
    by (auto simp: span_call_def callProviderRaw_def Let_def span_error_def split: prod.splits option.splits)
  show ?thesis
    using call [OF fetch_own(1)] call [OF fetch_own(2)]
    by (auto simp: fetch_stop_def Let_def split: prod.splits option.splits) (metis add_0 snd_conv)+
qed

text \<open>C32. Every span is closed again, and a fallback is counted exactly for the answers 502: an
  answer replayed from the cache does not count.\<close>

theorem compact_events:
  "spans_balanced (snd (handleCompactDepartures sur r c))
   \<and> count_events is_fallback (snd (handleCompactDepartures sur r c)) =
       (if requested_stops r \<noteq> None \<and> fetched_boards (stop_results sur r) = []
           \<and> fst (Cache_Get (get_clock sur) (compact_key r) c) = None then 1 else 0)"
proof (cases "requested_stops r")
  case (Some ids)
  have "count_events is_fallback (concat (map snd (compact_fetches sur d xs))) = 0" for d xs
  proof -
    have "count_events is_fallback (concat (map snd (map (\<lambda>(i, ident). fetch_stop sur d i ident) ps))) = 0" for ps
      by (induction ps) (auto simp: fetch_stop_no_fallback)
    then show ?thesis by (simp add: compact_fetches_def)
  qed
  then show ?thesis
    by (intro conjI compact_balanced) (simp add: handle_events [OF Some] respond_events Some)
qed (simp add: handle_invalid)

interpretation compact: route_handler "\<lambda>now. handleCompactDepartures (sur\<lparr>get_clock := now\<rparr>)" compact_key for sur
  by (rule route_handlerI) (rule compact_touches, rule compact_balanced)

section \<open>A concrete exchange\<close>

text \<open>transport.rest answers with the JSON of the sample board, whose only departure leaves two
  minutes after \<open>sample_time 0\<close>; or it cannot be reached.\<close>

definition sample_compact_request :: request where
  "sample_compact_request = sample_request\<lparr>
     URL := \<lparr>escaped_path = ''/compact/departures'', raw_query = ''stops=900100003'', force_query = False\<rparr>,
     Pattern := ''GET /compact/departures'', matches := []\<rparr>"

definition sample_surroundings :: "http_client \<Rightarrow> int \<Rightarrow> surroundings" where
  "sample_surroundings client s =
     \<lparr>rest_client = (\<lambda>_. client), rest_upstream = ''https://up'', hafas_client = None,
      rest_clock = (\<lambda>_. sample_time s), hafas_clock_at = (\<lambda>_. sample_time s),
      get_clock = sample_time s, asof_clock = sample_time s, store_clock = sample_time s\<rparr>"

abbreviation sample_upstream :: http_client where
  "sample_upstream \<equiv> answering 200 (Marshal (published (sample_board False)))"

lemma sample_params:
  "requested_stops sample_compact_request = Some [''900100003'']"
  "compact_duration sample_compact_request = 30" "compact_limit sample_compact_request = 6"
  by code_simp+

lemma sample_decoded:
  "Decode dec_upstream zero_upstream (Marshal (published (sample_board False))) =
     Some \<lparr>up_Departures = [upstream_of sample_location zero_product (late_journey False)],
           RealtimeDataUpdatedAt = 0\<rparr>"
  unfolding decode_published [OF sample_board_facts]
  by (simp add: single_admitted upstream_of_def delay_seconds_def updated_at_def)
    (simp add: single_board_def zero_board_def)

definition sample_departure :: compactDeparture where
  "sample_departure = upstream_departure \<lparr>t_inst = Instant 63852825720 0, t_off = 7200\<rparr>
     (upstream_of sample_location zero_product (late_journey False))"

lemma sample_departure_time: "cd_Time sample_departure = 1717228920"
  by (simp add: sample_departure_def upstream_departure_def Unix_def unix_to_internal_def wrap64_def)

lemma sample_board_made:
  "transformCompactBoard (sample_time 0) ident
     \<lparr>up_Departures = [upstream_of sample_location zero_product (late_journey False)], RealtimeDataUpdatedAt = 0\<rparr>
   = \<lparr>cb_ID = ident, cb_Name = ''S+U Alexanderplatz'', Departures = [sample_departure]\<rparr>"
proof -
  have "upstream_time (upstream_of sample_location zero_product (late_journey False))
      = \<lparr>t_inst = Instant 63852825720 0, t_off = 7200\<rparr>"
    unfolding listed_time_read(2) [OF late_publishable]
    by (simp add: listed_time_def late_times IsZero_def) (simp add: late_journey_def zero_stbStop_def)
  moreover have "Add (sample_time 0) (- compactPastGrace) = \<lparr>t_inst = Instant 63852825570 0, t_off = 0\<rparr>"
    by (simp add: Add_def sample_time_def compactPastGrace_def saturate64_def max_int64_def Let_def)
  moreover have "up_StopName (upstream_of sample_location zero_product (late_journey False)) = ''S+U Alexanderplatz''"
    by (simp add: upstream_of_def sample_location_def zero_location_def)
  ultimately show ?thesis
    by (simp add: transform_upstream sort_departures_def Let_def board_name_def current_def IsZero_def
        Before_def sample_departure_def)
qed

lemma sample_results:
  "stop_results (sample_surroundings sample_upstream 0) sample_compact_request =
     [Inr (\<lparr>cb_ID = ''900100003'', cb_Name = ''S+U Alexanderplatz'', Departures = [sample_departure]\<rparr>, 0)]"
  "\<exists>e. stop_results (sample_surroundings unreachable s) sample_compact_request = [Inl e]"
  by (simp_all add: stop_results_def sample_params compact_fetches_def fetch_stop_result
      fetchCompactBoard_def sample_surroundings_def answering_def unreachable_def Decode_body_ok
      sample_decoded sample_board_made Let_def)

lemma sample_expiry:
  "compactCacheExpiry (response_boards 6 (stop_results (sample_surroundings sample_upstream 0) sample_compact_request))
     = sample_time 120"
  by (simp add: sample_results(1) response_boards_def cut_board_def compactCacheExpiry_def
      sample_departure_time time_Unix_def sample_time_def unix_to_internal_def wrap64_def)

lemma sample_storable:
  "storable (sample_time 0) 6 (stop_results (sample_surroundings sample_upstream 0) sample_compact_request)"
  unfolding storable_def sample_expiry
  by (simp add: sample_results(1) some_failed_def result_error_def After_def sample_time_def)

lemma sample_clocks [simp]:
  "get_clock (sample_surroundings cl s) = sample_time s"
  "store_clock (sample_surroundings cl s) = sample_time s"
  "asof_clock (sample_surroundings cl s) = sample_time s"
  by (simp_all add: sample_surroundings_def)

lemma fetched_none: "\<exists>e. rs = [Inl e] \<Longrightarrow> fetched_boards rs = []"
  by auto


theorem fanout_schedule_independent_witness:
  "let sur = sample_surroundings unreachable 0 in
   \<exists>s. fan_steps (fan_start (compact_fetches sur 30 [''1'', ''2''])) s
      \<and> fan_results s = [Some (fst (fetch_stop sur 30 0 ''1'')), Some (fst (fetch_stop sur 30 1 ''2''))]"
proof -
  let ?sur = "sample_surroundings unreachable 0"
  obtain s where s: "fan_steps (fan_start (compact_fetches ?sur 30 [''1'', ''2''])) s" "joined s"
    using fan_reaches by blast
  from fanout_schedule_independent [OF this] s(1) show ?thesis
    by (auto simp: compact_fetches_def Let_def)
qed


theorem compact_body_witness:
  "resp_body (fst (fst (handleCompactDepartures (sample_surroundings sample_upstream 0)
       sample_compact_request (NewCache 1)))) =
     Marshal (json_compactResponse \<lparr>AsOf = 1717228800, Partial = 0,
       Boards = [\<lparr>cb_ID = ''900100003'', cb_Name = ''S+U Alexanderplatz'', Departures = [sample_departure]\<rparr>]\<rparr>)"
  using compact_body [of "sample_surroundings sample_upstream 0" sample_compact_request "NewCache 1"]
  by (simp add: sample_results(1) sample_params result_error_def Unix_def sample_time_def
      unix_to_internal_def wrap64_def Let_def)

theorem only_complete_responses_stored_witness:
  "\<exists>e. map_of (abs_cache (snd (fst (handleCompactDepartures (sample_surroundings sample_upstream 0)
          sample_compact_request (NewCache 1))))) (compact_key sample_compact_request) = Some e
      \<and> expiresAt e = sample_time 120"
proof -
  let ?sur = "sample_surroundings sample_upstream 0"
  let ?e = "response_entry (sample_time 0) 6 (stop_results ?sur sample_compact_request)"
  have "snd (fst (handleCompactDepartures ?sur sample_compact_request (NewCache 1)))
      = Cache_Set (compact_key sample_compact_request) ?e (NewCache 1)"
    by (subst handle_served) (simp_all add: sample_results(1) sample_params sample_storable [unfolded sample_results(1)])
  then have m: "map_of (abs_cache (snd (fst (handleCompactDepartures ?sur sample_compact_request (NewCache 1)))))
      (compact_key sample_compact_request) = Some ?e"
    by (simp add: lru.put_same)
  have "map_of (abs_cache (NewCache 1)) (compact_key sample_compact_request) = None"
    by (simp add: NewCache_abs)
  then have "expiresAt ?e = compactCacheExpiry (response_boards (compact_limit sample_compact_request)
      (stop_results ?sur sample_compact_request))"
    using only_complete_responses_stored [OF cache_inv_New m] by simp
  then show ?thesis using m by (auto simp: sample_params sample_expiry)
qed

theorem compact_stale_if_error_witness:
  "let first = fst (handleCompactDepartures (sample_surroundings sample_upstream 0) sample_compact_request (NewCache 1));
       later = fst (fst (handleCompactDepartures (sample_surroundings unreachable 60)
                 sample_compact_request (cache_run [] (snd first))))
   in status later = 200 \<and> resp_body later = resp_body (fst first)
    \<and> header_values (resp_headers later) ''X-Cache'' = [''HIT'']"
  by (rule compact_stale_if_error)
    (simp_all add: sample_params sample_storable sample_expiry fetched_none [OF sample_results(2)],
     simp_all add: sample_results(1) After_def sample_time_def)

theorem compact_expired_is_502_witness:
  "status (fst (fst (handleCompactDepartures (sample_surroundings unreachable 0) sample_compact_request (NewCache 1)))) = 502
   \<and> map_of (abs_cache (snd (fst (handleCompactDepartures (sample_surroundings unreachable 0)
        sample_compact_request (NewCache 1))))) (compact_key sample_compact_request) = None"
  by (rule compact_expired_is_502)
    (simp_all add: sample_params fetched_none [OF sample_results(2)] NewCache_abs)

end
