(* ===== verification/Mux.thy ===== *)
theory Mux
  imports Routes HafasProviders CompactHandler
begin

text \<open>
  \<open>mux.go\<close>: the route table, the matching of paths against it (as \<open>net/http\<close> does it), the
  choice of providers and caches for each route, and the server as a state machine over its two
  caches.
\<close>

section \<open>Patterns and paths\<close>

datatype segment = Lit string | Wild string

definition segment_of :: "string \<Rightarrow> segment" where
  "segment_of s = (if HasPrefix s ''{'' then Wild (butlast (tl s)) else Lit s)"

text \<open>A pattern is a method, a blank and a path.\<close>

definition parse_pattern :: "string \<Rightarrow> string \<times> segment list" where
  "parse_pattern p = (let (meth, path) = Cut CHR '' '' p in (meth, map segment_of (tl (Split CHR ''/'' path))))"

fun PathUnescape :: "string \<Rightarrow> string option" where
  "PathUnescape [] = Some []"
| "PathUnescape (c # s) =
     (if c = CHR ''%'' then
        (case s of
           a # b # r \<Rightarrow>
             (case (hex_val a, hex_val b) of
                (Some x, Some y) \<Rightarrow> map_option ((#) (char_of_byte (16 * x + y))) (PathUnescape r)
              | _ \<Rightarrow> None)
         | _ \<Rightarrow> None)
      else map_option ((#) c) (PathUnescape s))"

text \<open>\<open>path.Clean\<close> of a rooted path, and what \<open>net/http\<close> makes of it.\<close>

definition clean_step :: "string list \<Rightarrow> string \<Rightarrow> string list" where
  "clean_step done seg =
     (if seg = [] \<or> seg = ''.'' then done else if seg = ''..'' then butlast done else done @ [seg])"

definition Clean :: "string \<Rightarrow> string" where
  "Clean p = ''/'' @ Join (foldl clean_step [] (Split CHR ''/'' p)) ''/''"

definition cleanPath :: "string \<Rightarrow> string" where
  "cleanPath p =
     (if p = [] then ''/''
      else let p = (if hd p \<noteq> CHR ''/'' then CHR ''/'' # p else p); np = Clean p
           in if last p = CHR ''/'' \<and> np \<noteq> ''/'' then np @ ''/'' else np)"

text \<open>The segments that the routing tree is walked with: unescaped where possible, and a slash at
  the end as a segment of its own.\<close>

fun path_segments :: "string list \<Rightarrow> string list" where
  "path_segments [] = []"
| "path_segments [s] = (if s = [] then [''/''] else [case PathUnescape s of None \<Rightarrow> s | Some u \<Rightarrow> u])"
| "path_segments (s # t # ss) = (case PathUnescape s of None \<Rightarrow> s | Some u \<Rightarrow> u) # path_segments (t # ss)"

definition segments_of :: "string \<Rightarrow> string list" where
  "segments_of path = path_segments (tl (Split CHR ''/'' path))"

text \<open>The walk: literals before wildcards, with backtracking; a wildcard does not match the slash
  at the end.\<close>

fun lit_child :: "string \<Rightarrow> (segment list \<times> 'h) list \<Rightarrow> (segment list \<times> 'h) list" where
  "lit_child s [] = []"
| "lit_child s ((Lit t # ps, h) # rs) = (if t = s then (ps, h) # lit_child s rs else lit_child s rs)"
| "lit_child s (_ # rs) = lit_child s rs"

fun wild_child :: "(segment list \<times> 'h) list \<Rightarrow> (segment list \<times> 'h) list" where
  "wild_child [] = []"
| "wild_child ((Wild n # ps, h) # rs) = (ps, h) # wild_child rs"
| "wild_child (_ # rs) = wild_child rs"

fun match_path :: "(segment list \<times> 'h) list \<Rightarrow> string list \<Rightarrow> ('h \<times> string list) option" where
  "match_path rs [] = map_option (\<lambda>(_, h). (h, [])) (find (\<lambda>(ps, _). ps = []) rs)"
| "match_path rs (seg # segs) =
     (case match_path (lit_child seg rs) segs of
        Some r \<Rightarrow> Some r
      | None \<Rightarrow>
          if seg = ''/'' then None
          else map_option (\<lambda>(h, ms). (h, seg # ms)) (match_path (wild_child rs) segs))"

section \<open>The route table\<close>

datatype route =
    Metrics_page | ReachableFrom | StopDepartures | StopArrivals | StopInfo | RefreshJourney | Journeys
  | Trip | Trips | Nearby | Locations | Radar | Station | Stations | OneLine | Lines | Shape | MapImage
  | CompactDepartures | Healthz

definition route_table :: "(string \<times> route) list" where
  "route_table =
     [(''GET /metrics'', Metrics_page),
      (''GET /stops/reachable-from'', ReachableFrom),
      (''GET /stops/{id}/departures'', StopDepartures),
      (''GET /stops/{id}/arrivals'', StopArrivals),
      (''GET /stops/{id}'', StopInfo),
      (''GET /journeys/{ref}'', RefreshJourney),
      (''GET /journeys'', Journeys),
      (''GET /trips/{id}'', Trip),
      (''GET /trips'', Trips),
      (''GET /locations/nearby'', Nearby),
      (''GET /locations'', Locations),
      (''GET /radar'', Radar),
      (''GET /stations/{id}'', Station),
      (''GET /stations'', Stations),
      (''GET /lines/{id}'', OneLine),
      (''GET /lines'', Lines),
      (''GET /shapes/{id}'', Shape),
      (''GET /maps/{type}'', MapImage),
      (''GET /compact/departures'', CompactDepartures),
      (''GET /healthz'', Healthz)]"

definition tree :: "(segment list \<times> string \<times> route) list" where
  "tree = map (\<lambda>(p, h). (snd (parse_pattern p), p, h)) route_table"

definition wildcard_names :: "string \<Rightarrow> string list" where
  "wildcard_names p = List.map_filter (\<lambda>s. case s of Wild n \<Rightarrow> Some n | Lit _ \<Rightarrow> None) (snd (parse_pattern p))"

text \<open>All patterns have the method GET, which also matches HEAD.\<close>

datatype dispatched =
    Handler string route "(string \<times> string) list"
  | RedirectTo string
  | MethodNotAllowed
  | NotFound

definition findHandler :: "string \<Rightarrow> url \<Rightarrow> dispatched" where
  "findHandler meth u =
     (let path = (if meth = ''CONNECT'' then escaped_path u else cleanPath (escaped_path u));
          found = match_path tree (segments_of path)
      in if path \<noteq> escaped_path u then RedirectTo path
         else case found of
                None \<Rightarrow> NotFound
              | Some ((p, h), ms) \<Rightarrow>
                  if meth = ''GET'' \<or> meth = ''HEAD'' then Handler p h (zip (wildcard_names p) ms)
                  else MethodNotAllowed)"

section \<open>The handlers behind the routes\<close>

text \<open>What one request finds outside: the network, the clock, the page of the metrics registry.\<close>

record server_env =
  env_client :: http_client
  env_upstream :: string
  env_hafas :: "HAFASClient option"
  env_now :: time
  env_metrics :: response
  env_compact :: surroundings
  env_hafas_net :: "nat \<Rightarrow> http_client"

definition restOnly :: "server_env \<Rightarrow> DataProvider list" where
  "restOnly env = [\<lparr>Name = ''transport_rest'', Fetch = Forward (env_client env) (env_upstream env)\<rparr>]"

definition with_hafas ::
  "(HAFASClient \<Rightarrow> request \<Rightarrow> fetch_result logged) \<Rightarrow> server_env \<Rightarrow> DataProvider list" where
  "with_hafas fetch env =
     (case env_hafas env of
        None \<Rightarrow> restOnly env
      | Some h \<Rightarrow> restOnly env @ [\<lparr>Name = ''hafas'', Fetch = fetch h\<rparr>])"

text \<open>The client of the compact endpoint is the same, seen by each goroutine for itself.\<close>

definition compact_surroundings :: "server_env \<Rightarrow> surroundings" where
  "compact_surroundings env = (env_compact env)\<lparr>rest_upstream := env_upstream env,
     hafas_client := map_option (\<lambda>h i. h\<lparr>httpClient := env_hafas_net env i\<rparr>) (env_hafas env)\<rparr>"

definition handleHealthz :: "response" where
  "handleHealthz = \<lparr>status = 200, resp_headers = header_set ''Content-Type'' ''text/plain'' [], resp_body = ''ok''\<rparr>"

datatype tier = NoCache | Static | Dynamic

fun tier_of :: "route \<Rightarrow> tier" where
  "tier_of Metrics_page = NoCache" | "tier_of Radar = NoCache" | "tier_of Healthz = NoCache"
| "tier_of StopInfo = Static" | "tier_of Nearby = Static" | "tier_of Locations = Static"
| "tier_of Station = Static" | "tier_of Stations = Static" | "tier_of OneLine = Static"
| "tier_of Lines = Static" | "tier_of Shape = Static" | "tier_of MapImage = Static"
| "tier_of _ = Dynamic"

fun handler_of :: "server_env \<Rightarrow> route \<Rightarrow> request \<Rightarrow> cache \<Rightarrow> (response \<times> cache) logged" where
  "handler_of env Metrics_page r c = ((env_metrics env, c), [])"
| "handler_of env ReachableFrom r c = handleReachableFrom (restOnly env) (env_now env) r c"
| "handler_of env StopDepartures r c = handleDepartures (with_hafas HAFAS_Departures env) (env_now env) r c"
| "handler_of env StopArrivals r c = handleArrivals (with_hafas HAFAS_Arrivals env) (env_now env) r c"
| "handler_of env StopInfo r c = handleStop (with_hafas HAFAS_Stop env) (env_now env) r c"
| "handler_of env RefreshJourney r c = handleRefreshJourney (restOnly env) (env_now env) r c"
| "handler_of env Journeys r c = handleJourneys (restOnly env) (env_now env) r c"
| "handler_of env Trip r c = handleTrip (restOnly env) (env_now env) r c"
| "handler_of env Trips r c = handleTrips (restOnly env) (env_now env) r c"
| "handler_of env Nearby r c = handleNearby (with_hafas HAFAS_Nearby env) (env_now env) r c"
| "handler_of env Locations r c = handleLocations (with_hafas HAFAS_Locations env) (env_now env) r c"
| "handler_of env Radar r c =
     (let (resp, evs) = handleRadar (env_client env) (env_upstream env) r in ((resp, c), evs))"
| "handler_of env Station r c = handleStation (restOnly env) (env_now env) r c"
| "handler_of env Stations r c = handleStations (restOnly env) (env_now env) r c"
| "handler_of env OneLine r c = handleLine (restOnly env) (env_now env) r c"
| "handler_of env Lines r c = handleLines (restOnly env) (env_now env) r c"
| "handler_of env Shape r c = handleShape (env_client env) (env_upstream env) (env_now env) r c"
| "handler_of env MapImage r c = handleMap (env_client env) (env_upstream env) (env_now env) r c"
| "handler_of env CompactDepartures r c =
     handleCompactDepartures ((compact_surroundings env)\<lparr>get_clock := env_now env\<rparr>) r c"
| "handler_of env Healthz r c = ((handleHealthz, c), [])"

section \<open>The server\<close>

record server =
  staticCache :: cache
  dynamicCache :: cache

definition newMux :: "int \<Rightarrow> int \<Rightarrow> server" where
  "newMux staticCap dynamicCap =
     \<lparr>staticCache = NewCache staticCap, dynamicCache = NewCache dynamicCap\<rparr>"

definition run_route :: "server_env \<Rightarrow> route \<Rightarrow> request \<Rightarrow> server \<Rightarrow> (response \<times> server) logged" where
  "run_route env h r s =
     (case tier_of h of
        NoCache \<Rightarrow> (let ((resp, _), evs) = handler_of env h r (NewCache 0) in ((resp, s), evs))
      | Static \<Rightarrow> (let ((resp, c), evs) = handler_of env h r (staticCache s) in ((resp, s\<lparr>staticCache := c\<rparr>), evs))
      | Dynamic \<Rightarrow> (let ((resp, c), evs) = handler_of env h r (dynamicCache s) in ((resp, s\<lparr>dynamicCache := c\<rparr>), evs)))"

definition matched :: "string \<Rightarrow> (string \<times> string) list \<Rightarrow> request \<Rightarrow> request" where
  "matched p ms r = r\<lparr>Pattern := p, matches := ms\<rparr>"

text \<open>One request: \<open>None\<close> stands for the answers that \<open>net/http\<close> gives itself (a redirect to the
  cleaned path, 404, 405).\<close>

definition ServeHTTP :: "server_env \<Rightarrow> request \<Rightarrow> server \<Rightarrow> (response option \<times> server) logged" where
  "ServeHTTP env r s =
     (case findHandler (Method r) (URL r) of
        Handler p h ms \<Rightarrow>
          (let ((resp, s'), evs) = run_route env h (matched p ms r) s in ((Some resp, s'), evs))
      | _ \<Rightarrow> ((None, s), []))"

text \<open>The otelhttp wrapper: requests for the metrics page are not traced, and a span is named after
  the pattern that matched.\<close>

definition traced :: "string \<Rightarrow> bool" where
  "traced path = (path \<noteq> ''/metrics'')"

definition span_name :: "string \<Rightarrow> request \<Rightarrow> string" where
  "span_name operation r = (if Pattern r \<noteq> [] then Pattern r else operation)"

section \<open>The walk finds the most specific match\<close>

fun seg_matches :: "segment \<Rightarrow> string \<Rightarrow> bool" where
  "seg_matches (Lit t) s = (t = s)"
| "seg_matches (Wild n) s = (s \<noteq> ''/'')"

definition path_matches :: "segment list \<Rightarrow> string list \<Rightarrow> bool" where
  "path_matches ps segs = list_all2 seg_matches ps segs"

text \<open>At the first position where two patterns differ in kind, the one with the literal is more
  specific.\<close>

fun more_literal :: "segment list \<Rightarrow> segment list \<Rightarrow> bool" where
  "more_literal (Lit _ # ps) (Wild _ # qs) = True"
| "more_literal (Lit _ # ps) (Lit _ # qs) = more_literal ps qs"
| "more_literal (Wild _ # ps) (Wild _ # qs) = more_literal ps qs"
| "more_literal _ _ = False"

definition wild_values :: "segment list \<Rightarrow> string list \<Rightarrow> string list" where
  "wild_values ps segs = map snd (filter (\<lambda>(p, _). case p of Wild _ \<Rightarrow> True | Lit _ \<Rightarrow> False) (zip ps segs))"

lemma lit_child_iff: "(ps, h) \<in> set (lit_child s rs) \<longleftrightarrow> (Lit s # ps, h) \<in> set rs"
  by (induction s rs rule: lit_child.induct) auto

lemma wild_child_iff: "(ps, h) \<in> set (wild_child rs) \<longleftrightarrow> (\<exists>n. (Wild n # ps, h) \<in> set rs)"
  by (induction rs rule: wild_child.induct) auto

lemma path_matches_simps [simp]:
  "path_matches ps [] \<longleftrightarrow> ps = []"
  "path_matches [] (seg # segs) \<longleftrightarrow> False"
  "path_matches (p # ps) (seg # segs) \<longleftrightarrow> seg_matches p seg \<and> path_matches ps segs"
  by (auto simp: path_matches_def)

lemma match_path_none:
  "match_path rs segs = None \<Longrightarrow> (ps, h) \<in> set rs \<Longrightarrow> \<not> path_matches ps segs"
proof (induction rs segs arbitrary: ps rule: match_path.induct)
  case (1 rs)
  then show ?case by (auto simp: find_None_iff)
next
  case (2 rs seg segs)
  show ?case
  proof
    assume m: "path_matches ps (seg # segs)"
    then obtain p qs where ps: "ps = p # qs" by (cases ps) auto
    have n: "match_path (lit_child seg rs) segs = None" "seg \<noteq> ''/'' \<Longrightarrow> match_path (wild_child rs) segs = None"
      using 2(3) by (auto split: option.splits if_splits)
    show False
    proof (cases p)
      case (Lit t)
      then show False using m ps 2(1) [OF n(1), of qs] 2(4) by (simp add: lit_child_iff)
    next
      case (Wild x)
      then have "seg \<noteq> ''/''" using m ps by simp
      moreover have "(qs, h) \<in> set (wild_child rs)" using 2(4) ps Wild by (auto simp: wild_child_iff)
      ultimately show False using m ps Wild 2(2) n by auto
    qed
  qed
qed

text \<open>The pattern found: it matches, it yields the values of its wildcards, and no other pattern
  that matches is more specific.\<close>

definition best_match :: "(segment list \<times> 'h) list \<Rightarrow> string list \<Rightarrow> segment list \<Rightarrow> 'h \<Rightarrow> string list \<Rightarrow> bool" where
  "best_match rs segs ps h ms \<longleftrightarrow>
     (ps, h) \<in> set rs \<and> path_matches ps segs \<and> ms = wild_values ps segs
   \<and> (\<forall>(qs, g) \<in> set rs. path_matches qs segs \<longrightarrow> \<not> more_literal qs ps)"

lemma match_path_some:
  "match_path rs segs = Some (h, ms) \<Longrightarrow> \<exists>ps. best_match rs segs ps h ms"
proof (induction rs segs arbitrary: ms rule: match_path.induct)
  case (1 rs)
  then show ?case by (auto simp: best_match_def find_Some_iff wild_values_def in_set_conv_nth)
next
  case (2 rs seg segs)
  show ?case
  proof (cases "match_path (lit_child seg rs) segs")
    case (Some r)
    then obtain ps where ps: "best_match (lit_child seg rs) segs ps h ms" using 2(1) 2(3) by auto
    have "\<not> more_literal qs (Lit seg # ps)" if "(qs, g) \<in> set rs" "path_matches qs (seg # segs)" for qs g
    proof
      assume more: "more_literal qs (Lit seg # ps)"
      then obtain t qs' where "qs = Lit t # qs'" "more_literal qs' ps"
        by (cases qs) (auto elim: more_literal.elims)
      then show False using that ps by (auto simp: best_match_def lit_child_iff)
    qed
    then have "best_match rs (seg # segs) (Lit seg # ps) h ms"
      using ps by (auto simp: best_match_def lit_child_iff wild_values_def)
    then show ?thesis ..
  next
    case None
    then have slash: "seg \<noteq> ''/''" using 2(3) by (auto split: if_splits)
    then obtain ms' where ms: "match_path (wild_child rs) segs = Some (h, ms')" "ms = seg # ms'"
      using None 2(3) by auto
    from 2(2) [OF None slash ms(1)] obtain ps n where
      ps: "best_match (wild_child rs) segs ps h ms'" "(Wild n # ps, h) \<in> set rs"
      by (auto simp: best_match_def wild_child_iff)
    have "\<not> more_literal qs (Wild n # ps)" if "(qs, g) \<in> set rs" "path_matches qs (seg # segs)" for qs g
    proof (cases qs)
      case (Cons q qs')
      show ?thesis
      proof (cases q)
        case (Lit t)
        then have "(qs', g) \<in> set (lit_child seg rs)" "path_matches qs' segs"
          using that Cons by (auto simp: lit_child_iff)
        then show ?thesis using match_path_none [OF None] by blast
      next
        case (Wild x)
        then have "(qs', g) \<in> set (wild_child rs)" "path_matches qs' segs"
          using that Cons by (auto simp: wild_child_iff)
        then show ?thesis using ps(1) Cons Wild by (auto simp: best_match_def)
      qed
    qed simp
    then have "best_match rs (seg # segs) (Wild n # ps) h ms"
      using ps slash ms(2) by (auto simp: best_match_def wild_values_def)
    then show ?thesis ..
  qed
qed

lemma tree_mem: "(ps, p, h) \<in> set tree \<longleftrightarrow> (p, h) \<in> set route_table \<and> ps = snd (parse_pattern p)"
  by (auto simp: tree_def)

definition pattern_matches :: "string \<Rightarrow> url \<Rightarrow> bool" where
  "pattern_matches p u \<longleftrightarrow> path_matches (snd (parse_pattern p)) (segments_of (escaped_path u))"

text \<open>Of two patterns that match the same path, one is more specific, unless they differ in the
  names of their wildcards only; the table has no such pair.\<close>

fun same_shape :: "segment list \<Rightarrow> segment list \<Rightarrow> bool" where
  "same_shape [] [] = True"
| "same_shape (Lit s # ps) (Lit t # qs) = (s = t \<and> same_shape ps qs)"
| "same_shape (Wild _ # ps) (Wild _ # qs) = same_shape ps qs"
| "same_shape _ _ = False"

lemma matching_comparable:
  "path_matches ps segs \<Longrightarrow> path_matches qs segs \<Longrightarrow>
     more_literal ps qs \<or> more_literal qs ps \<or> same_shape ps qs"
proof (induction ps arbitrary: qs segs)
  case Nil
  then show ?case by (cases segs) (auto simp: path_matches_def)
next
  case (Cons p ps)
  then obtain seg segs' q qs' where "segs = seg # segs'" "qs = q # qs'"
    by (cases segs; cases qs) auto
  with Cons show ?case by (cases p; cases q) auto
qed

lemma table_unambiguous:
  "list_all (\<lambda>(p, g). list_all (\<lambda>(q, h). same_shape (snd (parse_pattern p)) (snd (parse_pattern q))
      \<longrightarrow> (p, g) = (q, h)) route_table) route_table"
  by code_simp

lemma most_specific:
  assumes "best_match tree (segments_of (escaped_path u)) ps (p, h) ms"
    and "(q, g) \<in> set route_table" "pattern_matches q u"
  shows "(q, g) = (p, h) \<or> more_literal (snd (parse_pattern p)) (snd (parse_pattern q))"
proof -
  have p: "(p, h) \<in> set route_table" "ps = snd (parse_pattern p)" "pattern_matches p u"
    using assms(1) by (auto simp: best_match_def tree_mem pattern_matches_def)
  have "(snd (parse_pattern q), q, g) \<in> set tree" using assms(2) by (simp add: tree_mem)
  then have "\<not> more_literal (snd (parse_pattern q)) (snd (parse_pattern p))"
    using assms(1,3) p(2) by (auto simp: best_match_def pattern_matches_def)
  moreover have "same_shape (snd (parse_pattern p)) (snd (parse_pattern q)) \<longrightarrow> (p, h) = (q, g)"
    using table_unambiguous p(1) assms(2) by (auto simp: list_all_iff)
  ultimately show ?thesis
    using matching_comparable p(3) assms(3) unfolding pattern_matches_def by blast
qed



section \<open>Routes as handlers that record what they answer\<close>

text \<open>A caching route whose new entry, if there is one, is the response that it just gave.\<close>

locale recording_route = route_handler +
  assumes run_records: "cache_inv c \<Longrightarrow> map_of (abs_cache (snd (fst (run now r c)))) (key r) = Some e \<Longrightarrow>
    map_of (abs_cache c) (key r) = Some e
    \<or> (body e = resp_body (fst (fst (run now r c))) \<and> statusCode e = status (fst (fst (run now r c))))"
begin

lemma recorded:
  "cache_inv c \<Longrightarrow> map_of (abs_cache (snd (fst (run now r c)))) k = Some e \<Longrightarrow>
    map_of (abs_cache c) k = Some e
    \<or> (k = key r \<and> body e = resp_body (fst (fst (run now r c))) \<and> statusCode e = status (fst (fst (run now r c))))"
  using run_records [of c now r e] untouched [of c now r k e] by (cases "k = key r") auto

end

lemma get_keeps:
  "cache_inv c \<Longrightarrow> map_of (abs_cache (snd (Cache_Get now k c))) k' = Some e \<Longrightarrow> map_of (abs_cache c) k' = Some e"
  using lru.get_sub [of c now k k'] by auto

lemma standard_recording:
  assumes "providers_ok ps"
  shows "recording_route (newStandardHandler ps eb f) uri_key"
proof (intro recording_route.intro standard_route [OF assms] recording_route_axioms.intro)
  fix c now r e
  assume inv: "cache_inv c"
    and m: "map_of (abs_cache (snd (fst (newStandardHandler ps eb f now r c)))) (uri_key r) = Some e"
  from assms show "map_of (abs_cache c) (uri_key r) = Some e
    \<or> (body e = resp_body (fst (fst (newStandardHandler ps eb f now r c)))
       \<and> statusCode e = status (fst (fst (newStandardHandler ps eb f now r c))))"
  proof (cases rule: standard_cases [of ps r eb f now c])
    case fallback
    then show ?thesis using m get_keeps [OF inv] by (auto simp: serveFallback_cache)
  next
    case (served qs p rs b h)
    show ?thesis
    proof (cases "cacheable f now b")
      case True
      then have "map_of (abs_cache (Cache_Set (uri_key r) (entry_for f h b) c)) (uri_key r) = Some e"
        using m served(4) by (simp add: uri_key_def)
      from lru.put_cases [OF inv this] show ?thesis
        using served(4) by (auto simp: entry_for_def)
    qed (use m served(4) in simp)
  qed
qed

lemma shape_recording: "recording_route (handleShape client upstream) uri_key"
proof (intro recording_route.intro shape.route_handler_axioms recording_route_axioms.intro)
  fix c now r e
  assume inv: "cache_inv c"
    and m: "map_of (abs_cache (snd (fst (handleShape client upstream now r c)))) (uri_key r) = Some e"
  show "map_of (abs_cache c) (uri_key r) = Some e
    \<or> (body e = resp_body (fst (fst (handleShape client upstream now r c)))
       \<and> statusCode e = status (fst (fst (handleShape client upstream now r c))))"
  proof (cases "upstream_content client upstream r")
    case None
    then show ?thesis using m get_keeps [OF inv] by (auto simp: shape_no_content serveFallback_cache)
  next
    case (Some resp)
    have "map_of (abs_cache (Cache_Set (uri_key r) (redirect_entry resp (resp_data resp)) c)) (uri_key r) = Some e"
      using m Some by (simp add: shape_content uri_key_def)
    from lru.put_cases [OF inv this] show ?thesis
      using Some by (auto simp: shape_content redirect_entry_def)
  qed
qed

lemma map_recording: "recording_route (handleMap client upstream) uri_key"
proof (intro recording_route.intro map.route_handler_axioms recording_route_axioms.intro)
  fix c now r e
  assume inv: "cache_inv c"
    and m: "map_of (abs_cache (snd (fst (handleMap client upstream now r c)))) (uri_key r) = Some e"
  show "map_of (abs_cache c) (uri_key r) = Some e
    \<or> (body e = resp_body (fst (fst (handleMap client upstream now r c)))
       \<and> statusCode e = status (fst (fst (handleMap client upstream now r c))))"
  proof (cases "upstream_content client upstream r")
    case None
    then show ?thesis using m get_keeps [OF inv] by (auto simp: map_no_content)
  next
    case (Some resp)
    have "map_of (abs_cache (Cache_Set (uri_key r) (redirect_entry resp (resp_data resp)) c)) (uri_key r) = Some e"
      using m Some by (simp add: map_content uri_key_def)
    from lru.put_cases [OF inv this] show ?thesis
      using Some by (auto simp: map_content redirect_entry_def)
  qed
qed

lemma compact_recording:
  "recording_route (\<lambda>now. handleCompactDepartures (sur\<lparr>get_clock := now\<rparr>)) compact_key"
proof (intro recording_route.intro compact.route_handler_axioms recording_route_axioms.intro)
  fix c now r e
  let ?sur = "sur\<lparr>get_clock := now\<rparr>"
  assume inv: "cache_inv c"
    and m: "map_of (abs_cache (snd (fst (handleCompactDepartures ?sur r c)))) (compact_key r) = Some e"
  show "map_of (abs_cache c) (compact_key r) = Some e
    \<or> (body e = resp_body (fst (fst (handleCompactDepartures ?sur r c)))
       \<and> statusCode e = status (fst (fst (handleCompactDepartures ?sur r c))))"
  proof (cases "fetched_boards (stop_results ?sur r) = []")
    case True
    then show ?thesis
      using m get_keeps [OF inv] handle_all_failed [OF _ True, of c]
      by (cases "requested_stops r = None") (auto simp: handle_invalid)
  next
    case served: False
    let ?e = "response_entry (asof_clock ?sur) (compact_limit r) (stop_results ?sur r)"
    show ?thesis
    proof (cases "storable (store_clock ?sur) (compact_limit r) (stop_results ?sur r)")
      case True
      then have "map_of (abs_cache (Cache_Set (compact_key r) ?e c)) (compact_key r) = Some e"
        using m by (simp add: handle_served [OF served])
      from lru.put_cases [OF inv this] show ?thesis
        by (auto simp: handle_served [OF served] response_entry_def writeCompactJSON_def)
    qed (use m in \<open>simp add: handle_served [OF served]\<close>)
  qed
qed

section \<open>Every route of the table honours the contract\<close>

definition route_key :: "route \<Rightarrow> request \<Rightarrow> string" where
  "route_key h = (if h = CompactDepartures then compact_key else uri_key)"

lemma restOnly_ok: "providers_ok (restOnly env)"
  by (simp add: restOnly_def)

lemma with_hafas_ok: "(\<And>h. data_provider (fetch h)) \<Longrightarrow> providers_ok (with_hafas fetch env)"
  by (simp add: with_hafas_def restOnly_def split: option.splits)

lemma env_now_irrelevant [simp]:
  "restOnly (env\<lparr>env_now := now\<rparr>) = restOnly env"
  "with_hafas fetch (env\<lparr>env_now := now\<rparr>) = with_hafas fetch env"
  "compact_surroundings (env\<lparr>env_now := now\<rparr>) = compact_surroundings env"
  by (simp_all add: restOnly_def with_hafas_def compact_surroundings_def cong: option.case_cong)

lemmas providers_are_ok =
  restOnly_ok
  with_hafas_ok [OF hafas_departures.data_provider_axioms]
  with_hafas_ok [OF hafas_arrivals.data_provider_axioms]
  with_hafas_ok [OF hafas_locations.data_provider_axioms]
  with_hafas_ok [OF hafas_nearby.data_provider_axioms]
  with_hafas_ok [OF hafas_stop.data_provider_axioms]

lemma untouched_recording:
  assumes "\<And>now r c. snd (fst (run now r c)) = c" and "\<And>now r c. spans_balanced (snd (run now r c))"
  shows "recording_route run key"
  by unfold_locales (simp_all add: assms)

lemma passthrough_balanced:
  "newPassthroughHandler client upstream eb r = (resp, evs) \<Longrightarrow> spans_balanced evs"
  by (auto simp: newPassthroughHandler_def upstream_events_def Let_def intro!: balanced_no_spans
      split: prod.splits sum.splits if_splits)

text \<open>The handlers as functions, without their last arguments.\<close>

lemma handler_functions:
  "handler_of env ReachableFrom = handleReachableFrom (restOnly env) (env_now env)"
  "handler_of env StopDepartures = handleDepartures (with_hafas HAFAS_Departures env) (env_now env)"
  "handler_of env StopArrivals = handleArrivals (with_hafas HAFAS_Arrivals env) (env_now env)"
  "handler_of env StopInfo = handleStop (with_hafas HAFAS_Stop env) (env_now env)"
  "handler_of env RefreshJourney = handleRefreshJourney (restOnly env) (env_now env)"
  "handler_of env Journeys = handleJourneys (restOnly env) (env_now env)"
  "handler_of env Trip = handleTrip (restOnly env) (env_now env)"
  "handler_of env Trips = handleTrips (restOnly env) (env_now env)"
  "handler_of env Nearby = handleNearby (with_hafas HAFAS_Nearby env) (env_now env)"
  "handler_of env Locations = handleLocations (with_hafas HAFAS_Locations env) (env_now env)"
  "handler_of env Station = handleStation (restOnly env) (env_now env)"
  "handler_of env Stations = handleStations (restOnly env) (env_now env)"
  "handler_of env OneLine = handleLine (restOnly env) (env_now env)"
  "handler_of env Lines = handleLines (restOnly env) (env_now env)"
  "handler_of env Shape = handleShape (env_client env) (env_upstream env) (env_now env)"
  "handler_of env MapImage = handleMap (env_client env) (env_upstream env) (env_now env)"
  "handler_of env CompactDepartures =
     handleCompactDepartures ((compact_surroundings env)\<lparr>get_clock := env_now env\<rparr>)"
  by (simp_all add: fun_eq_iff)

interpretation routed: recording_route "\<lambda>now. handler_of (env\<lparr>env_now := now\<rparr>) h" "route_key h" for env h
proof (cases "tier_of h = NoCache")
  case True
  then show "recording_route (\<lambda>now. handler_of (env\<lparr>env_now := now\<rparr>) h) (route_key h)"
    by (intro untouched_recording; cases h)
      (auto simp: handleRadar_def intro: passthrough_balanced split: prod.splits)
next
  case False
  then show "recording_route (\<lambda>now. handler_of (env\<lparr>env_now := now\<rparr>) h) (route_key h)"
    by (cases h) (simp_all add: handler_functions route_key_def standard_routes standard_recording providers_are_ok
        shape_recording map_recording compact_recording cong: if_cong)
qed

section \<open>The server as a state machine\<close>

text \<open>
  The history of a server: what it was asked and what it answered.  The surroundings of every
  request are arbitrary, so that nothing is assumed of the upstream or of the clocks.  A request does at most one operation on a
  cache, which the mutex makes atomic, so that requests that overlap appear here in the order of
  these operations.
\<close>

definition valid_url :: "url \<Rightarrow> bool" where
  "valid_url u \<longleftrightarrow> HasPrefix (escaped_path u) ''/'' \<and> CHR ''?'' \<notin> set (escaped_path u)"

inductive reaches :: "int \<Rightarrow> int \<Rightarrow> (request \<times> response option) list \<Rightarrow> server \<Rightarrow> bool"
  for staticCap dynamicCap :: int where
  start: "reaches staticCap dynamicCap [] (newMux staticCap dynamicCap)"
| answer: "reaches staticCap dynamicCap hist s \<Longrightarrow> valid_url (URL r) \<Longrightarrow>
    ServeHTTP env r s = ((resp, s'), evs) \<Longrightarrow>
    reaches staticCap dynamicCap (hist @ [(r, resp)]) s'"

inductive_cases reaches_snocE: "reaches a b (hist @ [x]) s"

definition cache_of :: "tier \<Rightarrow> server \<Rightarrow> cache" where
  "cache_of t s = (case t of NoCache \<Rightarrow> NewCache 0 | Static \<Rightarrow> staticCache s | Dynamic \<Rightarrow> dynamicCache s)"

text \<open>What a request does to the two caches.\<close>

lemma run_route_caches:
  assumes "run_route env h r s = ((resp, s'), evs)"
  shows "handler_of env h r (cache_of (tier_of h) s) = ((resp, c'), evs) \<Longrightarrow>
      cache_of t s' = (if t = tier_of h \<and> t \<noteq> NoCache then c' else cache_of t s)"
    and "\<exists>c'. handler_of env h r (cache_of (tier_of h) s) = ((resp, c'), evs)"
  using assms by (auto simp: run_route_def cache_of_def split: tier.splits prod.splits)

lemma serve_cases:
  assumes "ServeHTTP env r s = ((resp, s'), evs)"
  obtains (own) "resp = None" "s' = s" "evs = []"
  | (handled) p h ms out where "findHandler (Method r) (URL r) = Handler p h ms" "resp = Some out"
      "run_route env h (matched p ms r) s = ((out, s'), evs)"
  using assms by (auto simp: ServeHTTP_def split: dispatched.splits prod.splits)

lemmas handler_keeps = routed.run_inv routed.run_cap routed.run_spans routed.recorded

text \<open>The same facts for one environment as it is.\<close>

lemma env_as_it_is: "handler_of env h = handler_of (env\<lparr>env_now := env_now env\<rparr>) h"
  by simp

lemma handled_step:
  assumes "handler_of env h r c = ((resp, c'), evs)"
  shows "cache_inv c \<Longrightarrow> cache_inv c'" and "cache_cap c' = cache_cap c" and "spans_balanced evs"
    and "cache_inv c \<Longrightarrow> map_of (abs_cache c') k = Some e \<Longrightarrow> map_of (abs_cache c) k = Some e
       \<or> (k = route_key h r \<and> body e = resp_body resp \<and> statusCode e = status resp)"
  using handler_keeps [where env = env and now = "env_now env" and h = h and r = r and c = c] assms
  by auto

section \<open>A key belongs to one route\<close>

lemma path_of_uri_key:
  assumes "valid_url (URL r)"
  shows "takeWhile (\<lambda>c. c \<noteq> CHR ''?'') (uri_key r) = escaped_path (URL r)" and "uri_key r \<noteq> []"
proof -
  have "takeWhile (\<lambda>c. c \<noteq> CHR ''?'') (escaped_path (URL r) @ CHR ''?'' # q) = escaped_path (URL r)" for q
    using assms by (subst takeWhile_append2) (auto simp: valid_url_def)
  moreover have "takeWhile (\<lambda>c. c \<noteq> CHR ''?'') (escaped_path (URL r)) = escaped_path (URL r)"
    using assms by (auto simp: valid_url_def takeWhile_eq_all_conv)
  moreover have "escaped_path (URL r) \<noteq> []" using assms by (auto simp: valid_url_def HasPrefix_def)
  ultimately show "takeWhile (\<lambda>c. c \<noteq> CHR ''?'') (uri_key r) = escaped_path (URL r)" "uri_key r \<noteq> []"
    by (simp_all add: uri_key_def RequestURI_def)
qed

lemma path_of_compact_key:
  assumes "compact_key r \<noteq> []"
  shows "takeWhile (\<lambda>c. c \<noteq> CHR ''?'') (compact_key r) = compactRoutePath"
proof -
  have "CHR ''?'' \<notin> set compactRoutePath" by code_simp
  then have "takeWhile (\<lambda>c. c \<noteq> CHR ''?'') (compactRoutePath @ CHR ''?'' # q) = compactRoutePath" for q
    by (subst takeWhile_append2) auto
  then show ?thesis
    using assms by (auto simp: compact_key_def compactCacheKey_def split: option.splits)
qed

lemma found_by_path:
  "findHandler meth u = Handler p h ms \<Longrightarrow> escaped_path u' = escaped_path u \<Longrightarrow>
     findHandler meth' u' = Handler p' h' ms' \<Longrightarrow> p' = p \<and> h' = h \<and> ms' = ms"
  by (auto simp: findHandler_def Let_def split: if_splits option.splits)

lemma compact_path_found:
  "match_path tree (segments_of compactRoutePath) = Some ((''GET /compact/departures'', CompactDepartures), [])"
  by code_simp

lemma compact_path_only:
  "escaped_path u = compactRoutePath \<Longrightarrow> findHandler meth u = Handler p h ms \<Longrightarrow> h = CompactDepartures"
  by (auto simp: findHandler_def Let_def compact_path_found split: if_splits option.splits)

lemma handler_in_table:
  assumes "findHandler meth u = Handler p h ms"
  shows "(p, h) \<in> set route_table"
proof -
  obtain ms' where "match_path tree (segments_of (escaped_path u)) = Some ((p, h), ms')"
    using assms by (auto simp: findHandler_def Let_def split: if_splits option.splits prod.splits)
  from match_path_some [OF this] show ?thesis by (auto simp: best_match_def tree_mem)
qed

lemma one_pattern_each: "distinct (map snd route_table)"
  by code_simp

lemma same_pattern: "(p, h) \<in> set route_table \<Longrightarrow> (p', h) \<in> set route_table \<Longrightarrow> p' = p"
  using one_pattern_each unfolding distinct_map by (metis inj_onD prod.inject snd_conv)

lemma same_key_same_route:
  assumes u: "valid_url (URL r)" "valid_url (URL r')"
    and f: "findHandler (Method r) (URL r) = Handler p h ms" "findHandler (Method r') (URL r') = Handler p' h' ms'"
    and k: "route_key h' (matched p' ms' r') = route_key h (matched p ms r)"
  shows "p' = p \<and> h' = h \<and> (h \<noteq> CompactDepartures \<longrightarrow> ms' = ms)"
proof -
  have m: "URL (matched p ms r) = URL r" "uri_key (matched p ms r) = uri_key r" for p ms r
    by (simp_all add: matched_def uri_key_def)
  have no_mix: "h2 = CompactDepartures"
    if v: "valid_url (URL r2)" and f2: "findHandler (Method r2) (URL r2) = Handler p2 h2 ms2"
      and eq: "compact_key r1 = uri_key r2" for r1 r2 p2 h2 ms2
  proof (rule compact_path_only [OF _ f2])
    have "compact_key r1 \<noteq> []" using eq path_of_uri_key(2) [OF v] by simp
    from path_of_compact_key [OF this] show "escaped_path (URL r2) = compactRoutePath"
      using path_of_uri_key(1) [OF v] eq by simp
  qed
  show ?thesis
  proof (cases "h = CompactDepartures \<or> h' = CompactDepartures")
    case True
    then have "h = CompactDepartures" "h' = CompactDepartures"
      using k no_mix [OF u(1) f(1)] no_mix [OF u(2) f(2)]
      by (auto simp: route_key_def m split: if_splits)
    then show ?thesis using same_pattern handler_in_table f by metis
  next
    case False
    then have "uri_key r' = uri_key r" using k by (simp add: route_key_def m)
    then have "escaped_path (URL r') = escaped_path (URL r)"
      using path_of_uri_key(1) u by metis
    from found_by_path [OF f(1) this f(2)] show ?thesis by simp
  qed
qed

section \<open>What the caches hold\<close>

definition given :: "(request \<times> response option) list \<Rightarrow> tier \<Rightarrow> string \<Rightarrow> cache_entry \<Rightarrow> bool" where
  "given hist t k e \<longleftrightarrow> (\<exists>r p h ms out. (r, Some out) \<in> set hist \<and> valid_url (URL r)
     \<and> findHandler (Method r) (URL r) = Handler p h ms \<and> tier_of h = t
     \<and> k = route_key h (matched p ms r) \<and> body e = resp_body out \<and> statusCode e = status out)"

definition server_inv :: "int \<Rightarrow> int \<Rightarrow> (request \<times> response option) list \<Rightarrow> server \<Rightarrow> bool" where
  "server_inv a b hist s \<longleftrightarrow>
     cache_cap (staticCache s) = a \<and> cache_cap (dynamicCache s) = b
   \<and> (\<forall>t. cache_inv (cache_of t s))
   \<and> (\<forall>t k e. map_of (abs_cache (cache_of t s)) k = Some e \<longrightarrow> given hist t k e)"

lemma given_mono: "given hist t k e \<Longrightarrow> given (hist @ xs) t k e"
  unfolding given_def set_append by blast

lemma givenI:
  assumes "valid_url (URL r)" and "findHandler (Method r) (URL r) = Handler p h ms"
    and "k = route_key h (matched p ms r)" and "body e = resp_body out" and "statusCode e = status out"
  shows "given (hist @ [(r, Some out)]) (tier_of h) k e"
  unfolding given_def using assms by (intro exI conjI) (auto intro: assms)

lemma cache_of_simps [simp]:
  "cache_of Static s = staticCache s" "cache_of Dynamic s = dynamicCache s" "cache_of NoCache s = NewCache 0"
  by (simp_all add: cache_of_def)

lemma server_inv_start: "server_inv a b [] (newMux a b)"
  by (auto simp: server_inv_def newMux_def cache_of_def NewCache_abs split: tier.splits)

lemma server_inv_step:
  assumes inv: "server_inv a b hist s" and u: "valid_url (URL r)"
    and step: "ServeHTTP env r s = ((resp, s'), evs)"
  shows "server_inv a b (hist @ [(r, resp)]) s'" and "spans_balanced evs"
proof -
  show "server_inv a b (hist @ [(r, resp)]) s'"
    using step
  proof (cases rule: serve_cases)
    case own
    then show ?thesis using inv by (auto simp: server_inv_def intro: given_mono)
  next
    case (handled p h ms out)
    obtain c' where c: "handler_of env h (matched p ms r) (cache_of (tier_of h) s) = ((out, c'), evs)"
      using run_route_caches(2) [OF handled(3)] by auto
    note s' = run_route_caches(1) [OF handled(3) c]
    have i: "cache_inv (cache_of t s)" for t using inv by (simp add: server_inv_def)
    note step = handled_step [OF c]
    have "cache_inv (cache_of t s')" for t using s' i step(1) by auto
    moreover have "given (hist @ [(r, resp)]) t k e" if m: "map_of (abs_cache (cache_of t s')) k = Some e" for t k e
    proof (cases "map_of (abs_cache (cache_of t s)) k = Some e")
      case True
      then show ?thesis using inv by (auto simp: server_inv_def intro: given_mono)
    next
      case False
      then have t: "t = tier_of h" "map_of (abs_cache c') k = Some e" using m s' by (auto split: if_splits)
      then have "k = route_key h (matched p ms r)" "body e = resp_body out" "statusCode e = status out"
        using step(4) [OF i] False by auto
      from givenI [OF u handled(1) this] show ?thesis using t(1) handled(2) by simp
    qed
    moreover have "cache_cap (staticCache s') = a" "cache_cap (dynamicCache s') = b"
      using s' [of Static] s' [of Dynamic] step(2) inv by (auto simp: server_inv_def split: if_splits)
    ultimately show ?thesis by (simp add: server_inv_def)
  qed
  show "spans_balanced evs"
    using step
  proof (cases rule: serve_cases)
    case (handled p h ms out)
    then show ?thesis using run_route_caches(2) handled_step(3) by metis
  qed simp
qed

lemma reaches_inv: "reaches a b hist s \<Longrightarrow> server_inv a b hist s"
  by (induction rule: reaches.induct) (auto intro: server_inv_start server_inv_step)


text \<open>C8. No cross-talk: what the cache holds under the key of a request was answered before, body
  and status, to a request for the same route, with the same values of the wildcards, and with the
  same key: so a fallback never replays the answer of another route, stop or query.\<close>

theorem entry_has_source:
  assumes "reaches staticCap dynamicCap hist s" and "valid_url (URL r)"
    and "findHandler (Method r) (URL r) = Handler p h ms"
    and "map_of (abs_cache (cache_of (tier_of h) s)) (route_key h (matched p ms r)) = Some e"
  shows "\<exists>r0 ms0 out. (r0, Some out) \<in> set hist
    \<and> findHandler (Method r0) (URL r0) = Handler p h ms0 \<and> (h \<noteq> CompactDepartures \<longrightarrow> ms0 = ms)
    \<and> route_key h (matched p ms0 r0) = route_key h (matched p ms r)
    \<and> body e = resp_body out \<and> statusCode e = status out"
proof -
  have "given hist (tier_of h) (route_key h (matched p ms r)) e"
    using reaches_inv [OF assms(1)] assms(4) by (simp add: server_inv_def)
  then obtain r0 p0 h0 ms0 out where 0: "(r0, Some out) \<in> set hist" "valid_url (URL r0)"
      "findHandler (Method r0) (URL r0) = Handler p0 h0 ms0"
      "route_key h0 (matched p0 ms0 r0) = route_key h (matched p ms r)"
      "body e = resp_body out" "statusCode e = status out"
    unfolding given_def by auto
  from same_key_same_route [OF assms(2) 0(2) assms(3) 0(3,4)]
  show ?thesis using 0 by (intro exI [of _ r0] exI [of _ ms0] exI [of _ out]) auto
qed

section \<open>A concrete server\<close>

definition sample_env :: "http_client \<Rightarrow> server_env" where
  "sample_env client =
     \<lparr>env_client = client, env_upstream = ''https://up'', env_hafas = None, env_now = sample_time 0,
      env_metrics = handleHealthz, env_compact = sample_surroundings client 0, env_hafas_net = (\<lambda>_. client)\<rparr>"

lemma sample_found:
  "findHandler ''GET'' (URL sample_request) = Handler ''GET /stops/{id}'' StopInfo [(''id'', ''900100003'')]"
  "valid_url (URL sample_request)"
  by code_simp+

lemma sample_matched: "matched ''GET /stops/{id}'' [(''id'', ''900100003'')] sample_request = sample_request"
  by (simp add: matched_def sample_request_def)

definition sample_stop_entry :: cache_entry where
  "sample_stop_entry = entry_for None [(''Content-Type'', [''application/json''])] ''{}''"

lemma sample_handled:
  "\<exists>out evs. handler_of (sample_env (answering 200 ''{}'')) StopInfo sample_request c
     = ((out, Cache_Set ''/stops/900100003'' sample_stop_entry c), evs)"
  using standard_success [of sample_request "[]" "rest_provider (answering 200 ''{}'')" "''{}''"
      "[(''Content-Type'', [''application/json''])]" "[]" "''{}''" None "sample_time 0" c]
  by (simp add: handler_functions handleStop_def with_hafas_def restOnly_def sample_env_def
      Forward_answering cacheable_def sample_stop_entry_def)
    (simp add: sample_request_def RequestURI_def)

lemma sample_served:
  "\<exists>out evs. ServeHTTP (sample_env (answering 200 ''{}'')) sample_request s
     = ((Some out, s\<lparr>staticCache := Cache_Set ''/stops/900100003'' sample_stop_entry (staticCache s)\<rparr>), evs)"
proof -
  obtain out evs where "handler_of (sample_env (answering 200 ''{}'')) StopInfo sample_request (staticCache s)
     = ((out, Cache_Set ''/stops/900100003'' sample_stop_entry (staticCache s)), evs)"
    using sample_handled by blast
  moreover have "Method sample_request = ''GET''" by (simp add: sample_request_def)
  ultimately show ?thesis by (simp add: ServeHTTP_def sample_found sample_matched run_route_def)
qed

lemma sample_reaches:
  "\<exists>out. reaches 1 1 [(sample_request, Some out)]
     ((newMux 1 1)\<lparr>staticCache := Cache_Set ''/stops/900100003'' sample_stop_entry (NewCache 1)\<rparr>)"
proof -
  obtain out evs where "ServeHTTP (sample_env (answering 200 ''{}'')) sample_request (newMux 1 1)
     = ((Some out, (newMux 1 1)\<lparr>staticCache := Cache_Set ''/stops/900100003'' sample_stop_entry
          (staticCache (newMux 1 1))\<rparr>), evs)"
    using sample_served by blast
  from reaches.answer [OF reaches.start sample_found(2) this] show ?thesis
    by (auto simp: newMux_def)
qed


theorem entry_has_source_witness:
  "\<exists>hist s r0 out. reaches 1 1 hist s \<and> (r0, Some out) \<in> set hist \<and> resp_body out = ''{}'' \<and> status out = 200
     \<and> findHandler (Method r0) (URL r0) = Handler ''GET /stops/{id}'' StopInfo [(''id'', ''900100003'')]"
proof -
  let ?s = "(newMux 1 1)\<lparr>staticCache := Cache_Set ''/stops/900100003'' sample_stop_entry (NewCache 1)\<rparr>"
  obtain out where r: "reaches 1 1 [(sample_request, Some out)] ?s" using sample_reaches by blast
  have m: "Method sample_request = ''GET''" by (simp add: sample_request_def)
  have "route_key StopInfo sample_request = ''/stops/900100003''"
    by (simp add: route_key_def uri_key_def RequestURI_def sample_request_def)
  then have "map_of (abs_cache (cache_of (tier_of StopInfo) ?s)) (route_key StopInfo
      (matched ''GET /stops/{id}'' [(''id'', ''900100003'')] sample_request)) = Some sample_stop_entry"
    by (simp add: lru.put_same sample_matched)
  from entry_has_source [OF r sample_found(2) _ this] r show ?thesis
    by (auto simp: m sample_found sample_stop_entry_def entry_for_def)
qed

end
