(* ===== verification/Access.thy ===== *)
theory Access
  imports Mux
begin

text \<open>
  What a handler does, split in two: what it decides before it touches its cache, and the one access
  to the cache that it then makes.  The split is the granularity at which requests that overlap can
  interleave, since the mutex of the cache makes an access atomic and nothing else is shared.
\<close>

section \<open>One access\<close>

datatype access =
    Untouched response "event list"
  | Lookup time string "cache_entry option \<Rightarrow> response logged"
  | Put string cache_entry response "event list"

fun perform :: "access \<Rightarrow> cache \<Rightarrow> (response \<times> cache) logged" where
  "perform (Untouched resp evs) c = ((resp, c), evs)"
| "perform (Lookup now k answer) c =
     (let (found, c') = Cache_Get now k c; (resp, evs) = answer found in ((resp, c'), evs))"
| "perform (Put k e resp evs) c = ((resp, Cache_Set k e c), evs)"

text \<open>The same on the abstract list.\<close>

fun perform_lru :: "int \<Rightarrow> access \<Rightarrow> lru \<Rightarrow> (response \<times> lru) logged" where
  "perform_lru n (Untouched resp evs) l = ((resp, l), evs)"
| "perform_lru n (Lookup now k answer) l =
     (let (found, l') = lru_get now k l; (resp, evs) = answer found in ((resp, l'), evs))"
| "perform_lru n (Put k e resp evs) l = ((resp, lru_set n k e l), evs)"

definition after :: "event list \<Rightarrow> ('a \<Rightarrow> response logged) \<Rightarrow> 'a \<Rightarrow> response logged" where
  "after evs answer x = (let (resp, evs') = answer x in (resp, evs @ evs'))"

lemma perform_refines:
  assumes "cache_inv c"
  shows "perform_lru (cache_cap c) a (abs_cache c) =
    (let ((resp, c'), evs) = perform a c in ((resp, abs_cache c'), evs))"
  using assms by (cases a) (auto simp: Get_refines Set_refines split: prod.splits)

section \<open>The access of each handler\<close>

definition fallback_answer :: "bytes \<Rightarrow> request \<Rightarrow> cache_entry option \<Rightarrow> response logged" where
  "fallback_answer emptyBody r found =
     (case found of
        Some entry \<Rightarrow> (writeFromCache [] entry, [SpanStart ''fallback'', SpanEnd ''fallback''])
      | None \<Rightarrow> (writeEmptyJSON (header_set ''X-Cache'' ''MISS'' []) emptyBody,
          [SpanStart ''fallback'', FallbackResponsesTotal (Method r) (routePath r), SpanEnd ''fallback'']))"

lemma serveFallback_access:
  "serveFallback eb key now r c = perform (Lookup now key (fallback_answer eb r)) c"
  by (simp add: serveFallback_def fallback_answer_def split: prod.splits option.splits)

definition standard_access ::
  "DataProvider list \<Rightarrow> bytes \<Rightarrow> (bytes \<Rightarrow> time) option \<Rightarrow> time \<Rightarrow> request \<Rightarrow> access" where
  "standard_access providers emptyBody expiry now r =
     (let ((data, hdr), evs) = try_providers providers r
      in case data of
           None \<Rightarrow> Lookup now (uri_key r) (after evs (fallback_answer emptyBody r))
         | Some b \<Rightarrow>
             (let resp = \<lparr>status = 200, resp_headers = add_all hdr [], resp_body = b\<rparr>
              in if cacheable expiry now b then Put (uri_key r) (entry_for expiry hdr b) resp evs
                 else Untouched resp evs))"

text \<open>Shapes and maps differ in what they answer when there is no content: from the entry found and
  the upstream's response, if there was one.\<close>

definition redirect_access ::
  "(http_response option \<Rightarrow> cache_entry option \<Rightarrow> response logged)
     \<Rightarrow> http_client \<Rightarrow> string \<Rightarrow> time \<Rightarrow> request \<Rightarrow> access" where
  "redirect_access answer client upstream now r =
     (let path = routePath r; key = uri_key r
      in case forward client upstream r of
           (Inl err, _) \<Rightarrow>
             Lookup now key (after [UpstreamErrorsTotal ''transport_rest'' (Method r) path (errorReason err)] (answer None))
         | (Inr resp, duration) \<Rightarrow>
             (let evs = upstream_events ''transport_rest'' (Method r) path duration (Itoa (StatusCode resp))
              in if StatusCode resp \<ge> 200 \<and> StatusCode resp < 400
                 then case ReadAll resp of
                        Inl err \<Rightarrow> Lookup now key (after evs (answer None))
                      | Inr data \<Rightarrow> Put key (redirect_entry resp data)
                          \<lparr>status = StatusCode resp, resp_headers = add_all (resp_header resp) [], resp_body = data\<rparr> evs
                 else Lookup now key
                        (after (evs @ [UpstreamErrorsTotal ''transport_rest'' (Method r) path
                                         (httpErrorReason (StatusCode resp))]) (answer (Some resp)))))"

definition map_answer :: "http_response option \<Rightarrow> cache_entry option \<Rightarrow> response logged" where
  "map_answer up found =
     (case found of
        Some entry \<Rightarrow> writeFromCache [] entry
      | None \<Rightarrow> (case up of None \<Rightarrow> bad_gateway | Some resp \<Rightarrow> copyUpstreamResponse [] resp), [])"

text \<open>The compact endpoint: the stops are fetched first.\<close>

definition compact_access :: "surroundings \<Rightarrow> request \<Rightarrow> access" where
  "compact_access sur r =
     (case requested_stops r of
        None \<Rightarrow> Untouched (writeCompactJSON [] 400 compactErrBadRequest) []
      | Some ids \<Rightarrow>
          (let rs = stop_results sur r; limit = compact_limit r; key = compact_key r;
               evs = SpanStart ''compact.fanout''
                     # concat (map snd (compact_fetches sur (compact_duration r) ids))
                     @ [SpanEnd ''compact.fanout''];
               data = response_data (asof_clock sur) limit rs
           in if fetched_boards rs = []
              then Lookup (get_clock sur) key (after evs (\<lambda>found. case found of
                  Some entry \<Rightarrow> (writeCompactJSON (header_set ''X-Cache'' ''HIT'' []) 200 (body entry), [])
                | None \<Rightarrow> (writeCompactJSON [] 502 compactErrUpstream, [FallbackResponsesTotal ''GET'' compactRoutePath])))
              else if storable (store_clock sur) limit rs
              then Put key (response_entry (asof_clock sur) limit rs) (writeCompactJSON [] 200 data) evs
              else Untouched (writeCompactJSON [] 200 data) evs))"

lemma standard_perform:
  "newStandardHandler ps eb f now r c = perform (standard_access ps eb f now r) c"
  by (cases f)
    (auto simp: newStandardHandler_def standard_access_def serveFallback_access after_def uri_key_def
      cacheable_def entry_for_def Let_def split: prod.splits option.splits)

lemma shape_perform:
  "handleShape client upstream now r c =
     perform (redirect_access (\<lambda>_. fallback_answer ''{}'' r) client upstream now r) c"
  by (auto simp: handleShape_def redirect_access_def serveFallback_access after_def uri_key_def Let_def
      split: prod.splits sum.splits)

lemma map_perform:
  "handleMap client upstream now r c = perform (redirect_access map_answer client upstream now r) c"
  by (auto simp: handleMap_def redirect_access_def map_answer_def after_def uri_key_def Let_def
      split: prod.splits sum.splits option.splits)

lemma compact_perform: "handleCompactDepartures sur r c = perform (compact_access sur r) c"
proof (cases "requested_stops r")
  case None
  then show ?thesis by (simp add: compact_access_def handle_invalid)
next
  case (Some ids)
  have "handleCompactDepartures sur r c
      = (fst (handleCompactDepartures sur r c), snd (handleCompactDepartures sur r c))" by simp
  also have "\<dots> = perform (compact_access sur r) c"
    unfolding handle_valid [OF Some] handle_events [OF Some]
    by (cases "fetched_boards (stop_results sur r) = []")
      (auto simp: respond_served respond_failed compact_access_def Some after_def Let_def
        split: prod.splits option.splits)
  finally show ?thesis .
qed

section \<open>The standard routes\<close>

text \<open>Providers, empty body and expiry function of a standard route.\<close>

fun standard_of :: "server_env \<Rightarrow> route \<Rightarrow> (DataProvider list \<times> bytes \<times> (bytes \<Rightarrow> time) option) option" where
  "standard_of env ReachableFrom = Some (restOnly env, ''{\"reachable\":[]}'', Some reachableFromExpiry)"
| "standard_of env StopDepartures =
     Some (with_hafas HAFAS_Departures env, ''{\"departures\":[]}'', Some departuresExpiry)"
| "standard_of env StopArrivals =
     Some (with_hafas HAFAS_Arrivals env, ''{\"arrivals\":[]}'', Some arrivalsExpiry)"
| "standard_of env StopInfo = Some (with_hafas HAFAS_Stop env, ''{}'', None)"
| "standard_of env RefreshJourney = Some (restOnly env, ''{\"journey\":{}}'', Some refreshJourneyExpiry)"
| "standard_of env Journeys = Some (restOnly env, ''{\"journeys\":[]}'', Some journeysExpiry)"
| "standard_of env Trip = Some (restOnly env, ''{\"trip\":{}}'', Some tripExpiry)"
| "standard_of env Trips = Some (restOnly env, ''{\"trips\":[]}'', Some tripsExpiry)"
| "standard_of env Nearby = Some (with_hafas HAFAS_Nearby env, ''[]'', None)"
| "standard_of env Locations = Some (with_hafas HAFAS_Locations env, ''[]'', None)"
| "standard_of env Station = Some (restOnly env, ''{}'', None)"
| "standard_of env Stations = Some (restOnly env, ''{}'', None)"
| "standard_of env OneLine = Some (restOnly env, ''{}'', None)"
| "standard_of env Lines = Some (restOnly env, ''[]'', None)"
| "standard_of env _ = None"

lemma standard_of_handler:
  assumes "standard_of env h = Some (ps, eb, f)"
  shows "handler_of env h = newStandardHandler ps eb f (env_now env)" and "providers_ok ps"
    and "route_key h = uri_key" and "tier_of h \<noteq> NoCache"
  using assms by (cases h; auto simp: handler_functions standard_routes providers_are_ok route_key_def)+

section \<open>The access of each route\<close>

fun access_of :: "server_env \<Rightarrow> route \<Rightarrow> request \<Rightarrow> access" where
  "access_of env Metrics_page r = Untouched (env_metrics env) []"
| "access_of env Radar r =
     (let (resp, evs) = handleRadar (env_client env) (env_upstream env) r in Untouched resp evs)"
| "access_of env Shape r =
     redirect_access (\<lambda>_. fallback_answer ''{}'' r) (env_client env) (env_upstream env) (env_now env) r"
| "access_of env MapImage r = redirect_access map_answer (env_client env) (env_upstream env) (env_now env) r"
| "access_of env CompactDepartures r = compact_access ((compact_surroundings env)\<lparr>get_clock := env_now env\<rparr>) r"
| "access_of env Healthz r = Untouched handleHealthz []"
| "access_of env h r =
     (case standard_of env h of
        Some (ps, eb, f) \<Rightarrow> standard_access ps eb f (env_now env) r
      | None \<Rightarrow> Untouched handleHealthz [])"

lemma handler_performs: "handler_of env h r c = perform (access_of env h r) c"
  by (cases h)
    (auto simp: handler_functions standard_routes standard_perform shape_perform map_perform compact_perform
      split: prod.splits)

end
