(* ===== verification/Outage.thy ===== *)
theory Outage
  imports Access
begin

text \<open>
  The server over many requests: each does at most one operation on its tier, under its own key, so
  that a tier is the run of these operations; and what that means for an upstream that fails.
\<close>

section \<open>A request as an operation on its tier\<close>

lemma shape_touches: "touches (uri_key r) c (snd (fst (handleShape client upstream now r c)))"
  by (cases "upstream_content client upstream r")
    (simp_all add: shape_content shape_no_content uri_key_def serveFallback_touches)

lemma map_touches: "touches (uri_key r) c (snd (fst (handleMap client upstream now r c)))"
  by (cases "upstream_content client upstream r")
    (auto simp: map_content map_no_content uri_key_def touches_def)

lemma handler_touches: "touches (route_key h r) c (snd (fst (handler_of env h r c)))"
  by (cases h)
    (simp_all add: handler_functions route_key_def standard_routes standard_touches providers_are_ok
      shape_touches map_touches compact_touches touches_def [of _ c c] split: prod.splits cong: if_cong)

lemma touched_run:
  assumes "touches k c c'"
  obtains ops where "c' = cache_run ops c" "op_key ` set ops \<subseteq> {k}"
proof -
  consider "c' = c" | now where "c' = snd (Cache_Get now k c)" | e where "c' = Cache_Set k e c"
    using assms by (auto simp: touches_def)
  then show ?thesis
  proof cases
    case 1
    then show ?thesis using that [of "[]"] by simp
  next
    case (2 now)
    then show ?thesis using that [of "[OpGet now k]"] by simp
  next
    case (3 e)
    then show ?thesis using that [of "[OpSet k e]"] by simp
  qed
qed

definition all_fail :: "server_env \<Rightarrow> request \<Rightarrow> bool" where
  "all_fail env r = (case findHandler (Method r) (URL r) of
     Handler p h ms \<Rightarrow> (case standard_of env h of
         Some (ps, _, _) \<Rightarrow> list_all (provider_fails (matched p ms r)) ps
       | None \<Rightarrow> False)
   | _ \<Rightarrow> False)"

lemma all_fail_looks_up:
  assumes "all_fail env r" and "findHandler (Method r) (URL r) = Handler p h ms"
  shows "snd (fst (handler_of env h (matched p ms r) c))
           = snd (Cache_Get (env_now env) (route_key h (matched p ms r)) c)"
proof -
  obtain ps eb f where s: "standard_of env h = Some (ps, eb, f)"
    and fails: "list_all (provider_fails (matched p ms r)) ps"
    using assms by (auto simp: all_fail_def split: option.splits)
  show ?thesis
    by (simp add: standard_of_handler [OF s] standard_fallback [OF fails] serveFallback_cache uri_key_def)
qed

section \<open>Histories as runs\<close>

definition key_in :: "tier \<Rightarrow> request \<Rightarrow> string option" where
  "key_in t r = (case findHandler (Method r) (URL r) of
     Handler p h ms \<Rightarrow> if tier_of h = t then Some (route_key h (matched p ms r)) else None
   | _ \<Rightarrow> None)"

text \<open>A request that leaves an entry alone: it has another key, or all its providers fail before
  the entry expires.\<close>

definition leaves :: "tier \<Rightarrow> string \<Rightarrow> cache_entry \<Rightarrow> server_env \<times> request \<Rightarrow> bool" where
  "leaves t k e = (\<lambda>(env, r). key_in t r = Some k \<longrightarrow> all_fail env r \<and> \<not> expired (env_now env) e)"

lemma request_run:
  assumes "ServeHTTP env r s = ((resp, s'), evs)" and "t \<noteq> NoCache"
  shows "\<exists>ops. cache_of t s' = cache_run ops (cache_of t s) \<and> op_key ` set ops \<subseteq> set_option (key_in t r)
    \<and> (leaves t k e (env, r) \<longrightarrow> (\<forall>x \<in> set ops. spares k e x))"
  using assms(1)
proof (cases rule: serve_cases)
  case own
  then show ?thesis by (intro exI [of _ "[]"]) simp
next
  case (handled p h ms out)
  obtain c' where c: "handler_of env h (matched p ms r) (cache_of (tier_of h) s) = ((out, c'), evs)"
    using run_route_caches(2) [OF handled(3)] by auto
  note s' = run_route_caches(1) [OF handled(3) c, of t]
  show ?thesis
  proof (cases "t = tier_of h")
    case True
    let ?k = "route_key h (matched p ms r)"
    have key: "key_in t r = Some ?k" using handled(1) True by (simp add: key_in_def)
    show ?thesis
    proof (cases "all_fail env r \<and> \<not> expired (env_now env) e")
      case fails: True
      then have "c' = snd (Cache_Get (env_now env) ?k (cache_of t s))"
        using all_fail_looks_up [OF _ handled(1), of env "cache_of t s"] c True by simp
      then show ?thesis
        using s' True assms(2) key fails by (intro exI [of _ "[OpGet (env_now env) ?k]"]) simp
    next
      case False
      have "touches ?k (cache_of t s) c'"
        using handler_touches [of h "matched p ms r" "cache_of t s" env] c True by simp
      then obtain ops where "c' = cache_run ops (cache_of t s)" "op_key ` set ops \<subseteq> {?k}"
        by (rule touched_run)
      moreover have "spares k e x" if "op_key x \<noteq> k" for x using that by (cases x) auto
      ultimately show ?thesis
        using s' True assms(2) key False by (intro exI [of _ ops]) (auto simp: leaves_def)
    qed
  next
    case False
    then show ?thesis using s' by (intro exI [of _ "[]"]) simp
  qed
qed

text \<open>More requests, each in surroundings of its own.\<close>

inductive goes_on :: "server \<Rightarrow> (server_env \<times> request) list \<Rightarrow> server \<Rightarrow> bool" for s :: server where
  none: "goes_on s [] s"
| one_more: "goes_on s rs s' \<Longrightarrow> ServeHTTP env r s' = ((resp, s''), evs) \<Longrightarrow> goes_on s (rs @ [(env, r)]) s''"

definition keys_in :: "tier \<Rightarrow> (server_env \<times> request) list \<Rightarrow> string set" where
  "keys_in t rs = (\<Union>(env, r) \<in> set rs. set_option (key_in t r))"

lemma finite_keys_in: "finite (keys_in t rs)"
  by (auto simp: keys_in_def)

lemma goes_on_run:
  assumes "goes_on s rs s'" and "t \<noteq> NoCache" and "list_all (leaves t k e) rs"
  shows "\<exists>ops. cache_of t s' = cache_run ops (cache_of t s) \<and> op_key ` set ops \<subseteq> keys_in t rs
    \<and> (\<forall>x \<in> set ops. spares k e x)"
  using assms(1,3)
proof (induction rule: goes_on.induct)
  case none
  then show ?case by (intro exI [of _ "[]"]) simp
next
  case (one_more rs s' env r resp s'' evs)
  then obtain ops where ops: "cache_of t s' = cache_run ops (cache_of t s)" "op_key ` set ops \<subseteq> keys_in t rs"
      "\<forall>x \<in> set ops. spares k e x"
    by auto
  obtain ops' where "cache_of t s'' = cache_run ops' (cache_of t s')" "op_key ` set ops' \<subseteq> set_option (key_in t r)"
      "\<forall>x \<in> set ops'. spares k e x"
    using request_run [OF one_more(2) assms(2), of k e] one_more(4) by auto
  with ops show ?case
    by (intro exI [of _ "ops @ ops'"]) (auto simp: cache_run_append keys_in_def)
qed

section \<open>An outage\<close>

lemma answered_and_stored:
  assumes "fst (try_providers ps r) = (Some b, hdr)" and "cacheable f now b"
  shows "fst (newStandardHandler ps eb f now r c) =
    (\<lparr>status = 200, resp_headers = add_all hdr [], resp_body = b\<rparr>,
     Cache_Set (uri_key r) (entry_for f hdr b) c)"
  using assms
  by (cases "try_providers ps r"; cases f)
    (simp_all add: newStandardHandler_def cacheable_def entry_for_def uri_key_def Let_def)

lemma serve_standard:
  assumes "findHandler (Method r) (URL r) = Handler p h ms" and "standard_of env h = Some (ps, eb, f)"
    and "fst (newStandardHandler ps eb f (env_now env) (matched p ms r) (cache_of (tier_of h) s)) = (out, c')"
  shows "\<exists>s' evs. ServeHTTP env r s = ((Some out, s'), evs) \<and> cache_of (tier_of h) s' = c'"
proof -
  obtain evs where e: "handler_of env h (matched p ms r) (cache_of (tier_of h) s) = ((out, c'), evs)"
    using assms(3) by (cases "newStandardHandler ps eb f (env_now env) (matched p ms r) (cache_of (tier_of h) s)")
      (simp add: standard_of_handler(1) [OF assms(2)])
  then show ?thesis
    using assms(1) standard_of_handler(4) [OF assms(2)]
    by (cases "tier_of h") (simp_all add: ServeHTTP_def run_route_def cache_of_def)
qed

lemma serve_outage:
  assumes "all_fail env r" and "findHandler (Method r) (URL r) = Handler p h ms"
    and "cache_inv (cache_of (tier_of h) s)"
    and "map_of (abs_cache (cache_of (tier_of h) s)) (uri_key r) = Some e" and "\<not> expired (env_now env) e"
  shows "fst (fst (ServeHTTP env r s)) = Some (writeFromCache [] e)"
proof -
  obtain ps eb f where st: "standard_of env h = Some (ps, eb, f)"
    and fails: "list_all (provider_fails (matched p ms r)) ps"
    using assms(1,2) by (auto simp: all_fail_def split: option.splits)
  have k: "uri_key r = RequestURI (URL (matched p ms r))" by (simp add: uri_key_def matched_def)
  have "fst (fst (newStandardHandler ps eb f (env_now env) (matched p ms r) (cache_of (tier_of h) s)))
      = writeFromCache [] e"
    using serveFallback_hit [OF assms(3) assms(4) [unfolded k] assms(5)]
    by (simp add: standard_fallback [OF fails])
  then obtain c' where "fst (newStandardHandler ps eb f (env_now env) (matched p ms r) (cache_of (tier_of h) s))
      = (writeFromCache [] e, c')"
    by (metis prod.collapse)
  from serve_standard [OF assms(2) st this] show ?thesis by auto
qed

definition tier_cap :: "int \<Rightarrow> int \<Rightarrow> tier \<Rightarrow> int" where
  "tier_cap staticCap dynamicCap t = (case t of NoCache \<Rightarrow> 0 | Static \<Rightarrow> staticCap | Dynamic \<Rightarrow> dynamicCap)"

lemma server_inv_tier:
  assumes "server_inv a b hist s"
  shows "cache_inv (cache_of t s)" and "t \<noteq> NoCache \<Longrightarrow> cache_cap (cache_of t s) = tier_cap a b t"
  using assms by (simp_all add: server_inv_def) (cases t; simp add: tier_cap_def)

text \<open>C1. An outage.  At any point in the life of a server, let a request on a standard route be
  answered by a provider with a body that may be cached.  Then, however many requests follow, as
  long as those for the same URI find no provider and the others use fewer keys of the same tier than
  it has room for, the next request for the URI that finds no provider is answered with the same
  body and header, marked as a hit, until the entry expires; the entries of static routes never do.\<close>

theorem outage_survived:
  assumes "reaches staticCap dynamicCap hist s"
    and "valid_url (URL r)" and "findHandler (Method r) (URL r) = Handler p h ms"
    and "standard_of env h = Some (ps, eb, f)"
    and "fst (try_providers ps (matched p ms r)) = (Some b, hdr)" and "cacheable f (env_now env) b"
    and "ServeHTTP env r s = ((Some out, s1), evs)"
    and "goes_on s1 rs s2" and "list_all (leaves (tier_of h) (uri_key r) (entry_for f hdr b)) rs"
    and "int (card (keys_in (tier_of h) rs - {uri_key r})) < tier_cap staticCap dynamicCap (tier_of h)"
    and "valid_url (URL r')" and "uri_key r' = uri_key r" and "all_fail env' r'"
    and "\<not> expired (env_now env') (entry_for f hdr b)" and "distinct (keys_of hdr)"
  shows "resp_body out = b \<and> (\<exists>resp. fst (fst (ServeHTTP env' r' s2)) = Some resp \<and> replays resp hdr b)"
proof -
  let ?t = "tier_of h" and ?e = "entry_for f hdr b" and ?k = "uri_key r"
  note st = standard_of_handler [OF assms(4)]
  have inv: "cache_inv (cache_of ?t s)" "cache_cap (cache_of ?t s) = tier_cap staticCap dynamicCap ?t"
    using server_inv_tier [OF reaches_inv [OF assms(1)]] st(4) by simp_all
  have k: "uri_key (matched p ms r) = ?k" by (simp add: uri_key_def matched_def)
  obtain s' evs' where "ServeHTTP env r s = ((Some \<lparr>status = 200, resp_headers = add_all hdr [], resp_body = b\<rparr>, s'), evs')"
      "cache_of ?t s' = Cache_Set ?k ?e (cache_of ?t s)"
    using serve_standard [OF assms(3,4) answered_and_stored [OF assms(5,6)]] unfolding k by blast
  then have s1: "resp_body out = b" "cache_of ?t s1 = Cache_Set ?k ?e (cache_of ?t s)"
    using assms(7) by auto
  obtain ops where ops: "cache_of ?t s2 = cache_run ops (cache_of ?t s1)"
      "op_key ` set ops \<subseteq> keys_in ?t rs" "\<forall>x \<in> set ops. spares ?k ?e x"
    using goes_on_run [OF assms(8) st(4) assms(9)] by blast
  have "card (op_key ` set ops - {?k}) \<le> card (keys_in ?t rs - {?k})"
    using ops(2) finite_keys_in by (intro card_mono) auto
  then have few: "int (card (op_key ` set ops - {?k})) < cache_cap (cache_of ?t s)"
    using assms(10) inv(2) by simp
  have kept: "map_of (abs_cache (cache_of ?t s2)) ?k = Some ?e"
    unfolding ops(1) s1(2) by (rule Cache_survives [OF inv(1) ops(3) few])
  have inv2: "cache_inv (cache_of ?t s2)"
    unfolding ops(1) s1(2) using run_refines [OF Set_inv [OF inv(1)]] by blast
  obtain p' h' ms' where f': "findHandler (Method r') (URL r') = Handler p' h' ms'"
    using assms(13) by (auto simp: all_fail_def split: dispatched.splits)
  have "escaped_path (URL r') = escaped_path (URL r)"
    using path_of_uri_key(1) assms(2,11,12) by metis
  from found_by_path [OF assms(3) this f'] have "h' = h" by simp
  with serve_outage [OF assms(13) f', of s2 ?e] kept inv2 assms(12,14) s1(1)
    writeFromCache_replays [OF assms(15)]
  show ?thesis by auto
qed

lemma sample_providers: "with_hafas fetch (sample_env client) = [rest_provider client]"
  by (simp add: sample_env_def with_hafas_def restOnly_def)

theorem outage_survived_witness:
  "\<exists>s1 s2 rs out evs. ServeHTTP (sample_env (answering 200 ''{}'')) sample_request (newMux 1 0) = ((Some out, s1), evs)
     \<and> goes_on s1 rs s2 \<and> length rs = 1
     \<and> (\<exists>resp. fst (fst (ServeHTTP (sample_env unreachable) sample_request s2)) = Some resp
          \<and> replays resp [(''Content-Type'', [''application/json''])] ''{}'')"
proof -
  let ?up = "sample_env (answering 200 ''{}'')" and ?down = "sample_env unreachable"
  let ?h = "[(''Content-Type'', [''application/json''])]"
  obtain out evs where a: "ServeHTTP ?up sample_request (newMux 1 0) = ((Some out,
      (newMux 1 0)\<lparr>staticCache := Cache_Set ''/stops/900100003'' sample_stop_entry (staticCache (newMux 1 0))\<rparr>), evs)"
    (is "_ = ((_, ?s1), _)") using sample_served by blast
  obtain resp s2 evs2 where b: "ServeHTTP ?down sample_request ?s1 = ((resp, s2), evs2)" by (metis surj_pair)
  have g: "goes_on ?s1 [(?down, sample_request)] s2" using goes_on.one_more [OF goes_on.none b] by simp
  have m: "Method sample_request = ''GET''" by (simp add: sample_request_def)
  have st: "standard_of ?up StopInfo = Some ([rest_provider (answering 200 ''{}'')], ''{}'', None)"
    by (simp add: sample_providers)
  have t: "fst (try_providers [rest_provider (answering 200 ''{}'')] sample_request) = (Some ''{}'', ?h)"
    using try_providers_first [of sample_request "[]" "rest_provider (answering 200 ''{}'')" _ _ "[]"]
    by (simp add: Forward_answering)
  then have t: "fst (try_providers [rest_provider (answering 200 ''{}'')]
      (matched ''GET /stops/{id}'' [(''id'', ''900100003'')] sample_request)) = (Some ''{}'', ?h)"
    unfolding sample_matched .
  have f: "findHandler (Method sample_request) (URL sample_request)
      = Handler ''GET /stops/{id}'' StopInfo [(''id'', ''900100003'')]"
    by (simp add: m sample_found)
  have fail: "all_fail ?down sample_request" by (simp add: all_fail_def m sample_found sample_providers sample_matched)
  have live: "\<not> expired x sample_stop_entry" for x
    by (simp add: sample_stop_entry_def entry_for_def expired_def)
  have key: "key_in Static sample_request = Some (uri_key sample_request)"
    by (simp add: key_in_def m sample_found sample_matched route_key_def)
  have "resp_body out = ''{}'' \<and> (\<exists>resp. fst (fst (ServeHTTP ?down sample_request s2)) = Some resp
      \<and> replays resp ?h ''{}'')"
    by (rule outage_survived [OF reaches.start sample_found(2) f st t _ a g])
      (use fail live in \<open>simp_all add: sample_found cacheable_def leaves_def keys_in_def key
        tier_cap_def sample_stop_entry_def\<close>)
  moreover have "length [(?down, sample_request)] = 1" by simp
  ultimately show ?thesis using a g by blast
qed

end
