(* ===== verification/Startup.thy ===== *)
theory Startup
  imports Outage
begin

text \<open>
  \<open>main.go\<close> and \<open>tracing.go\<close>: the environment and the command line, the guards of the tracing
  set-up, and \<open>run\<close> with its two goroutines.  The exporter, the resource detection and the
  HTTP server itself are library code; what they can answer is left open.
\<close>

section \<open>The environment\<close>

type_synonym environ = "(string \<times> string) list"

definition Getenv :: "environ \<Rightarrow> string \<Rightarrow> string" where
  "Getenv env k = (case map_of env k of None \<Rightarrow> [] | Some v \<Rightarrow> v)"

section \<open>\<open>time.ParseDuration\<close>\<close>

text \<open>Whole part: \<open>None\<close> if it exceeds \<open>2 ^ 63\<close>.\<close>

fun leadingInt :: "nat \<Rightarrow> string \<Rightarrow> (nat \<times> string) option" where
  "leadingInt x [] = Some (x, [])"
| "leadingInt x (c # s) =
     (if \<not> is_digit c then Some (x, c # s)
      else if x > 2 ^ 63 div 10 then None
      else if x * 10 + digit_val c > 2 ^ 63 then None
      else leadingInt (x * 10 + digit_val c) s)"

text \<open>Fraction: digits beyond the capacity are dropped.  The scale is a \<open>float64\<close>.\<close>

fun leadingFraction :: "nat \<Rightarrow> float64 \<Rightarrow> bool \<Rightarrow> string \<Rightarrow> nat \<times> float64 \<times> string" where
  "leadingFraction x scale overflow [] = (x, scale, [])"
| "leadingFraction x scale overflow (c # s) =
     (if \<not> is_digit c then (x, scale, c # s)
      else if overflow \<or> x > (2 ^ 63 - 1) div 10 \<or> x * 10 + digit_val c > 2 ^ 63
      then leadingFraction x scale True s
      else leadingFraction (x * 10 + digit_val c) (float_mul scale 10) False s)"

definition unitMap :: "(string \<times> nat) list" where
  "unitMap =
     [(''ns'', 1), (''us'', 1000), ([CHR 0xC2, CHR 0xB5, CHR ''s''], 1000),
      ([CHR 0xCE, CHR 0xBC, CHR ''s''], 1000), (''ms'', 1000000), (''s'', 1000000000),
      (''m'', 60000000000), (''h'', 3600000000000)]"

definition fraction_of :: "nat \<Rightarrow> float64 \<Rightarrow> nat \<Rightarrow> nat" where
  "fraction_of f scale u =
     (case scale of
        Fin sc \<Rightarrow> (case float_div (float_of_int (int u)) sc of
                     Fin q \<Rightarrow> nat (int_of_float (float_mul (float_of_int (int f)) q))
                   | _ \<Rightarrow> 0)
      | _ \<Rightarrow> 0)"

text \<open>One number with its unit: nanoseconds and the rest.\<close>

definition duration_part :: "string \<Rightarrow> (nat \<times> string) option" where
  "duration_part s =
     (if \<not> (s \<noteq> [] \<and> (hd s = CHR ''.'' \<or> is_digit (hd s))) then None
      else case leadingInt 0 s of
        None \<Rightarrow> None
      | Some (v, s1) \<Rightarrow>
          (let pre = length s1 \<noteq> length s;
               point = (s1 \<noteq> [] \<and> hd s1 = CHR ''.'');
               (f, scale, s2) = (if point then leadingFraction 0 (Fin 1) False (tl s1) else (0, Fin 1, s1));
               post = (point \<and> length s2 \<noteq> length (tl s1));
               u = takeWhile (\<lambda>c. \<not> (c = CHR ''.'' \<or> is_digit c)) s2;
               s3 = dropWhile (\<lambda>c. \<not> (c = CHR ''.'' \<or> is_digit c)) s2
           in if \<not> pre \<and> \<not> post \<or> u = [] then None
              else case map_of unitMap u of
                None \<Rightarrow> None
              | Some un \<Rightarrow>
                  if v > 2 ^ 63 div un then None
                  else (let v = v * un + (if f > 0 then fraction_of f scale un else 0)
                        in if v > 2 ^ 63 then None else Some (v, s3))))"

text \<open>Every part is at least two bytes long, so the length of the string is enough fuel.\<close>

fun duration_loop :: "nat \<Rightarrow> nat \<Rightarrow> string \<Rightarrow> nat option" where
  "duration_loop n d [] = Some d"
| "duration_loop 0 d (c # s) = None"
| "duration_loop (Suc n) d (c # s) =
     (case duration_part (c # s) of
        None \<Rightarrow> None
      | Some (v, rest) \<Rightarrow>
          (let d = (d + v) mod 2 ^ 64 in if d > 2 ^ 63 then None else duration_loop n d rest))"

definition ParseDuration :: "string \<Rightarrow> int option" where
  "ParseDuration orig =
     (let neg = (orig \<noteq> [] \<and> hd orig = CHR ''-'');
          s = (if orig \<noteq> [] \<and> (hd orig = CHR ''-'' \<or> hd orig = CHR ''+'') then tl orig else orig)
      in if s = ''0'' then Some 0
         else if s = [] then None
         else case duration_loop (length s) 0 s of
           None \<Rightarrow> None
         | Some d \<Rightarrow> if neg then Some (- int d) else if d > 2 ^ 63 - 1 then None else Some (int d))"

section \<open>\<open>strconv.ParseInt\<close> with base 0\<close>

text \<open>The flag package reads numbers in Go's syntax, with prefixes and underscores; an error of
  either kind ends the program.\<close>

definition base_prefix :: "string \<Rightarrow> nat \<times> string" where
  "base_prefix s =
     (if s \<noteq> [] \<and> hd s = CHR ''0'' then
        (if length s \<ge> 3 \<and> s ! 1 \<in> {CHR ''b'', CHR ''B''} then (2, drop 2 s)
         else if length s \<ge> 3 \<and> s ! 1 \<in> {CHR ''o'', CHR ''O''} then (8, drop 2 s)
         else if length s \<ge> 3 \<and> s ! 1 \<in> {CHR ''x'', CHR ''X''} then (16, drop 2 s)
         else (8, tl s))
      else (10, s))"

fun uint_loop :: "nat \<Rightarrow> nat \<Rightarrow> string \<Rightarrow> nat option" where
  "uint_loop base n [] = Some n"
| "uint_loop base n (c # s) =
     (if c = CHR ''_'' then uint_loop base n s
      else case hex_val c of
        None \<Rightarrow> None
      | Some d \<Rightarrow> if d \<ge> base \<or> n * base + d \<ge> 2 ^ 64 then None else uint_loop base (n * base + d) s)"

datatype seen = Start | Digit | Underscore | Other

fun underscores_loop :: "bool \<Rightarrow> seen \<Rightarrow> string \<Rightarrow> bool" where
  "underscores_loop hex i [] = (i \<noteq> Underscore)"
| "underscores_loop hex i (c # s) =
     (if is_digit c \<or> hex \<and> hex_val c \<noteq> None then underscores_loop hex Digit s
      else if c = CHR ''_'' then i = Digit \<and> underscores_loop hex Underscore s
      else i \<noteq> Underscore \<and> underscores_loop hex Other s)"

definition underscoreOK :: "string \<Rightarrow> bool" where
  "underscoreOK s0 =
     (let s = (if s0 \<noteq> [] \<and> (hd s0 = CHR ''-'' \<or> hd s0 = CHR ''+'') then tl s0 else s0);
          prefix = (length s \<ge> 2 \<and> hd s = CHR ''0''
                    \<and> s ! 1 \<in> {CHR ''b'', CHR ''B'', CHR ''o'', CHR ''O'', CHR ''x'', CHR ''X''})
      in if prefix then underscores_loop (s ! 1 \<in> {CHR ''x'', CHR ''X''}) Digit (drop 2 s)
         else underscores_loop False Start s)"

definition ParseInt0 :: "string \<Rightarrow> int option" where
  "ParseInt0 orig =
     (let neg = (orig \<noteq> [] \<and> hd orig = CHR ''-'');
          s = (if orig \<noteq> [] \<and> (hd orig = CHR ''-'' \<or> hd orig = CHR ''+'') then tl orig else orig);
          (base, digits) = base_prefix s
      in if s = [] then None
         else case uint_loop base 0 digits of
           None \<Rightarrow> None
         | Some un \<Rightarrow>
             if CHR ''_'' \<in> set digits \<and> \<not> underscoreOK s then None
             else if \<not> neg \<and> un \<ge> 2 ^ 63 \<or> neg \<and> un > 2 ^ 63 then None
             else Some (if neg then - int un else int un))"

section \<open>Configuration\<close>

definition DefaultListenAddr :: string where "DefaultListenAddr = '':8080''"
definition DefaultTimeout :: int where "DefaultTimeout = 10 * 1000000000"
definition DefaultStaticCacheSize :: int where "DefaultStaticCacheSize = 512"
definition DefaultDynamicCacheSize :: int where "DefaultDynamicCacheSize = 2048"
definition DefaultHAFASVersion :: string where "DefaultHAFASVersion = ''1.45''"
definition upstreamURL :: string where "upstreamURL = ''https://v6.vbb.transport.rest''"

definition envDuration :: "environ \<Rightarrow> string \<Rightarrow> int \<Rightarrow> int" where
  "envDuration env key dflt =
     (let v = Getenv env key
      in if v \<noteq> [] then (case ParseDuration v of Some d \<Rightarrow> d | None \<Rightarrow> dflt) else dflt)"

definition envInt :: "environ \<Rightarrow> string \<Rightarrow> int \<Rightarrow> int" where
  "envInt env key dflt =
     (let v = Getenv env key
      in if v \<noteq> [] then (case Atoi v of (n, None) \<Rightarrow> n | (_, Some _) \<Rightarrow> dflt) else dflt)"

record config =
  ListenAddr :: string
  Timeout :: int
  StaticCacheSize :: int
  DynamicCacheSize :: int

text \<open>The values the four flags have before the command line is read.\<close>

definition flag_defaults :: "environ \<Rightarrow> config" where
  "flag_defaults env =
     \<lparr>ListenAddr = Getenv env ''VBB_LISTEN_ADDR'',
      Timeout = envDuration env ''VBB_TIMEOUT'' DefaultTimeout,
      StaticCacheSize = envInt env ''VBB_STATIC_CACHE_SIZE'' DefaultStaticCacheSize,
      DynamicCacheSize = envInt env ''VBB_DYNAMIC_CACHE_SIZE'' DefaultDynamicCacheSize\<rparr>"

definition set_flag :: "string \<Rightarrow> string \<Rightarrow> config \<Rightarrow> config option" where
  "set_flag name v cfg =
     (if name = ''l'' then Some (cfg\<lparr>ListenAddr := v\<rparr>)
      else if name = ''t'' then map_option (\<lambda>d. cfg\<lparr>Timeout := d\<rparr>) (ParseDuration v)
      else if name = ''static-cache-size'' then map_option (\<lambda>n. cfg\<lparr>StaticCacheSize := n\<rparr>) (ParseInt0 v)
      else map_option (\<lambda>n. cfg\<lparr>DynamicCacheSize := n\<rparr>) (ParseInt0 v))"

definition flag_names :: "string list" where
  "flag_names = [''l'', ''t'', ''static-cache-size'', ''dynamic-cache-size'']"

text \<open>\<open>flag.Parse\<close>: the end of the flags, a malformed one, or a flag with perhaps a value.\<close>

datatype flag_syntax = NoFlag | BadFlag | Flag string "string option"

definition flag_of :: "string \<Rightarrow> flag_syntax" where
  "flag_of s =
     (if length s < 2 \<or> hd s \<noteq> CHR ''-'' \<or> s = ''--'' then NoFlag
      else let name = (if s ! 1 = CHR ''-'' then drop 2 s else drop 1 s);
               (n, rest) = (takeWhile (\<lambda>c. c \<noteq> CHR ''='') name, dropWhile (\<lambda>c. c \<noteq> CHR ''='') name)
           in if name = [] \<or> hd name = CHR ''-'' \<or> hd name = CHR ''='' then BadFlag
              else Flag n (if rest = [] then None else Some (tl rest)))"

text \<open>\<open>Inl\<close> is the code the process exits with.\<close>

fun parse_flags :: "string list \<Rightarrow> config \<Rightarrow> int + config" where
  "parse_flags [] cfg = Inr cfg"
| "parse_flags (s # args) cfg =
     (case flag_of s of
        NoFlag \<Rightarrow> Inr cfg
      | BadFlag \<Rightarrow> Inl 2
      | Flag name value \<Rightarrow>
          if name \<notin> set flag_names then Inl (if name \<in> {''help'', ''h''} then 0 else 2)
          else case value of
            Some v \<Rightarrow> (case set_flag name v cfg of None \<Rightarrow> Inl 2 | Some cfg' \<Rightarrow> parse_flags args cfg')
          | None \<Rightarrow> (case args of
              [] \<Rightarrow> Inl 2
            | v # args' \<Rightarrow> (case set_flag name v cfg of None \<Rightarrow> Inl 2 | Some cfg' \<Rightarrow> parse_flags args' cfg')))"

text \<open>\<open>main\<close> up to the call of \<open>run\<close>.\<close>

definition configure :: "environ \<Rightarrow> string list \<Rightarrow> int + config" where
  "configure env args =
     (case parse_flags args (flag_defaults env) of
        Inl code \<Rightarrow> Inl code
      | Inr cfg \<Rightarrow> Inr (if ListenAddr cfg = [] then cfg\<lparr>ListenAddr := DefaultListenAddr\<rparr> else cfg))"

section \<open>Flags, environment, defaults\<close>

text \<open>The flags of a command line, as pairs of name and value, without regard to whether they are
  known or their values readable.\<close>

fun flags_given :: "string list \<Rightarrow> (string \<times> string) list" where
  "flags_given [] = []"
| "flags_given (s # args) =
     (case flag_of s of
        Flag name (Some v) \<Rightarrow> (name, v) # flags_given args
      | Flag name None \<Rightarrow> (case args of [] \<Rightarrow> [] | v # args' \<Rightarrow> (name, v) # flags_given args')
      | _ \<Rightarrow> [])"

definition last_given :: "string \<Rightarrow> string list \<Rightarrow> string option" where
  "last_given name args = map_of (rev (flags_given args)) name"

text \<open>The value of the last flag of a name, if there is one, and otherwise the given one.\<close>

definition flag_or :: "'a \<Rightarrow> (string \<Rightarrow> 'a option) \<Rightarrow> (string \<times> string) list \<Rightarrow> string \<Rightarrow> 'a" where
  "flag_or dflt read fs name = (case map_of (rev fs) name of None \<Rightarrow> dflt | Some v \<Rightarrow> the (read v))"

lemma flag_or_Nil [simp]: "flag_or dflt read [] name = dflt"
  by (simp add: flag_or_def)

lemma flag_or_Cons:
  "flag_or dflt read ((n, v) # fs) name = flag_or (if n = name then the (read v) else dflt) read fs name"
  by (simp add: flag_or_def map_add_def split: option.splits)

lemma set_flag_cases:
  assumes "set_flag name v cfg = Some cfg'" and "name \<in> set flag_names"
  shows "ListenAddr cfg' = (if name = ''l'' then v else ListenAddr cfg)"
    and "Timeout cfg' = (if name = ''t'' then the (ParseDuration v) else Timeout cfg)"
    and "StaticCacheSize cfg' = (if name = ''static-cache-size'' then the (ParseInt0 v) else StaticCacheSize cfg)"
    and "DynamicCacheSize cfg' = (if name = ''dynamic-cache-size'' then the (ParseInt0 v) else DynamicCacheSize cfg)"
  using assms by (auto simp: set_flag_def flag_names_def split: if_splits)

lemma parsed_flags:
  "parse_flags args cfg = Inr cfg' \<Longrightarrow>
     ListenAddr cfg' = flag_or (ListenAddr cfg) Some (flags_given args) ''l''
   \<and> Timeout cfg' = flag_or (Timeout cfg) ParseDuration (flags_given args) ''t''
   \<and> StaticCacheSize cfg' = flag_or (StaticCacheSize cfg) ParseInt0 (flags_given args) ''static-cache-size''
   \<and> DynamicCacheSize cfg' = flag_or (DynamicCacheSize cfg) ParseInt0 (flags_given args) ''dynamic-cache-size''"
proof (induction args cfg rule: parse_flags.induct)
  case (2 s args cfg)
  show ?case
  proof (cases "flag_of s")
    case (Flag name val)
    have known: "name \<in> set flag_names" using 2(3) Flag by (auto split: if_splits)
    show ?thesis
    proof (cases val)
      case (Some v)
      then obtain cfg1 where c: "set_flag name v cfg = Some cfg1" "parse_flags args cfg1 = Inr cfg'"
        using 2(3) Flag known by (auto split: option.splits)
      from 2(2) [OF Flag _ Some c] known set_flag_cases [OF c(1) known] show ?thesis
        by (simp add: Flag Some flag_or_Cons)
    next
      case None
      then obtain v args' cfg1 where c: "args = v # args'" "set_flag name v cfg = Some cfg1"
          "parse_flags args' cfg1 = Inr cfg'"
        using 2(3) Flag known by (auto split: option.splits list.splits)
      from 2(1) [OF Flag _ None c] known set_flag_cases [OF c(2) known] show ?thesis
        by (simp add: Flag None c(1) flag_or_Cons)
    qed
  qed (use 2(3) in simp_all)
qed simp

text \<open>C21. Precedence: a setting is the value of its last flag on the command line, else what the
  environment says, as far as that can be read, else the built-in default; and a listen address
  that is then empty is the default one.\<close>

theorem configuration:
  assumes "configure env args = Inr cfg"
  shows "let given = flags_given args;
             addr = flag_or (Getenv env ''VBB_LISTEN_ADDR'') Some given ''l'' in
    ListenAddr cfg = (if addr = [] then '':8080'' else addr)
  \<and> Timeout cfg = flag_or
      (case ParseDuration (Getenv env ''VBB_TIMEOUT'') of Some d \<Rightarrow> d | None \<Rightarrow> 10000000000) ParseDuration given ''t''
  \<and> StaticCacheSize cfg = flag_or
      (if snd (Atoi (Getenv env ''VBB_STATIC_CACHE_SIZE'')) = None
       then fst (Atoi (Getenv env ''VBB_STATIC_CACHE_SIZE'')) else 512) ParseInt0 given ''static-cache-size''
  \<and> DynamicCacheSize cfg = flag_or
      (if snd (Atoi (Getenv env ''VBB_DYNAMIC_CACHE_SIZE'')) = None
       then fst (Atoi (Getenv env ''VBB_DYNAMIC_CACHE_SIZE'')) else 2048) ParseInt0 given ''dynamic-cache-size''"
proof -
  obtain cfg0 where p: "parse_flags args (flag_defaults env) = Inr cfg0"
    and c: "cfg = (if ListenAddr cfg0 = [] then cfg0\<lparr>ListenAddr := DefaultListenAddr\<rparr> else cfg0)"
    using assms by (auto simp: configure_def split: sum.splits)
  have i: "envInt env k d = (if snd (Atoi (Getenv env k)) = None then fst (Atoi (Getenv env k)) else d)" for k d
    by (auto simp: envInt_def Atoi_def ParseInt_def ParseUint_def Let_def split: prod.splits option.splits)
  have t: "envDuration env k d = (case ParseDuration (Getenv env k) of Some x \<Rightarrow> x | None \<Rightarrow> d)" for k d
    by (cases "Getenv env k = []") (simp_all add: envDuration_def Let_def, simp add: ParseDuration_def)
  show ?thesis
    using parsed_flags [OF p]
    by (simp add: c flag_defaults_def i t DefaultListenAddr_def DefaultTimeout_def
        DefaultStaticCacheSize_def DefaultDynamicCacheSize_def Let_def)
qed

theorem configuration_witness:
  "\<exists>cfg. configure [(''VBB_STATIC_CACHE_SIZE'', ''010''), (''VBB_DYNAMIC_CACHE_SIZE'', ''many'')]
       [''-l'', ''x'', ''-l='', ''--dynamic-cache-size=0x10''] = Inr cfg
     \<and> ListenAddr cfg = '':8080'' \<and> Timeout cfg = 10000000000
     \<and> StaticCacheSize cfg = 10 \<and> DynamicCacheSize cfg = 16"
proof -
  let ?env = "[(''VBB_STATIC_CACHE_SIZE'', ''010''), (''VBB_DYNAMIC_CACHE_SIZE'', ''many'')]"
  let ?args = "[''-l'', ''x'', ''-l='', ''--dynamic-cache-size=0x10'']"
  have f: "flag_of ''-l'' = Flag ''l'' None" "flag_of ''-l='' = Flag ''l'' (Some [])"
    "flag_of ''--dynamic-cache-size=0x10'' = Flag ''dynamic-cache-size'' (Some ''0x10'')"
    by (simp_all add: flag_of_def)
  have n: "ParseInt0 ''0x10'' = Some 16"
    by (simp add: ParseInt0_def base_prefix_def hex_val_def is_digit_def byte_of_def digit_val_def)
  have a: "Atoi ''010'' = (10, None)"
    by (simp add: Atoi_def ParseInt_def ParseUint_def is_digit_def byte_of_def digit_val_def)
  obtain cfg where c: "configure ?env ?args = Inr cfg"
    by (simp add: configure_def f n set_flag_def flag_names_def)
  have g: "flags_given ?args = [(''l'', ''x''), (''l'', []), (''dynamic-cache-size'', ''0x10'')]"
    by (simp add: f)
  have m: "snd (Atoi ''many'') \<noteq> None"
    by (simp add: Atoi_def ParseInt_def ParseUint_def is_digit_def byte_of_def)
  have "ParseDuration [] = None" by (simp add: ParseDuration_def)
  with configuration [OF c, unfolded g] c show ?thesis
    by (simp add: n a m flag_or_def Let_def Getenv_def)
qed

text \<open>Whole seconds are read as such.\<close>

lemma leadingInt_digits:
  "list_all is_digit ds \<Longrightarrow> \<not> (s \<noteq> [] \<and> is_digit (hd s)) \<Longrightarrow>
     foldl (\<lambda>n c. 10 * n + digit_val c) x ds \<le> 2 ^ 63 \<Longrightarrow>
     leadingInt x (ds @ s) = Some (foldl (\<lambda>n c. 10 * n + digit_val c) x ds, s)"
proof (induction ds arbitrary: x)
  case Nil
  then show ?case by (cases s) auto
next
  case (Cons c ds)
  have mono: "m \<le> foldl (\<lambda>n c. 10 * n + digit_val c) m ds" for m
  proof (induction ds arbitrary: m)
    case (Cons a ds)
    have "m \<le> 10 * m + digit_val a" by simp
    also have "\<dots> \<le> foldl (\<lambda>n c. 10 * n + digit_val c) (10 * m + digit_val a) ds" by (rule Cons.IH)
    finally show ?case by simp
  qed simp
  have "10 * x + digit_val c \<le> 2 ^ 63" using Cons.prems(3) mono [of "10 * x + digit_val c"] by simp
  then have "x * 10 + digit_val c \<le> 2 ^ 63" "x \<le> 2 ^ 63 div 10" by (simp_all add: mult.commute)
  with Cons show ?case by (simp add: mult.commute)
qed

lemma seconds_read:
  assumes "0 \<le> n" and "n \<le> 9223372036"
  shows "ParseDuration (Itoa n @ ''s'') = Some (n * 1000000000)"
proof -
  define ds where "ds = nat_digits (nat n)"
  have ds: "list_all is_digit ds" "ds \<noteq> []" "digits_value ds = nat n" "Itoa n = ds"
    using assms nat_digits_are_digits nat_digits_nonempty digits_value_nat_digits
    by (simp_all add: ds_def Itoa_def)
  have d: "is_digit (hd ds)" using ds(1,2) by (cases ds) auto
  then have h: "hd ds \<noteq> CHR ''-''" "hd ds \<noteq> CHR ''+''" by (auto simp: is_digit_def byte_of_def)
  have l: "leadingInt 0 (ds @ ''s'') = Some (nat n, ''s'')"
    using leadingInt_digits [OF ds(1), of "''s''" 0] ds(3) assms
    by (simp add: digits_value_def is_digit_def byte_of_def)
  have "\<not> is_digit CHR ''s''" by code_simp
  then have p: "duration_part (ds @ ''s'') = Some (nat n * 1000000000, [])"
    using d ds(2) assms by (simp add: duration_part_def l unitMap_def Let_def)
  obtain c cs where c: "ds @ ''s'' = c # cs" using ds(2) by (cases ds) auto
  have "duration_loop (length (ds @ ''s'')) 0 (ds @ ''s'') = Some (nat n * 1000000000)"
    using p assms unfolding c by simp
  moreover have "ds @ ''s'' \<noteq> ''0''" using ds(2) by (cases ds) auto
  ultimately show ?thesis
    using ds(2) h assms by (simp add: ds(4) ParseDuration_def)
qed

section \<open>Tracing\<close>

text \<open>The endpoint, or why there is none.\<close>

definition tracingEnabledFromEnv :: "environ \<Rightarrow> string \<times> bool \<times> string" where
  "tracingEnabledFromEnv env =
     (if Getenv env ''OTEL_TRACES_EXPORTER'' = ''none'' then ([], False, ''OTEL_TRACES_EXPORTER=none'')
      else let traces = Getenv env ''OTEL_EXPORTER_OTLP_TRACES_ENDPOINT'';
               general = Getenv env ''OTEL_EXPORTER_OTLP_ENDPOINT''
           in if traces = [] \<and> general = [] then ([], False, ''no OTLP endpoint configured'')
              else if traces \<noteq> [] then (traces, True, [])
              else (general, True, []))"

definition serviceVersion :: "environ \<Rightarrow> string" where
  "serviceVersion env = (let v = Getenv env ''VERSION'' in if v \<noteq> [] then v else ''dev'')"

definition resourceAttrs :: "environ \<Rightarrow> (string \<times> string) list" where
  "resourceAttrs env =
     (let name = Getenv env ''OTEL_SERVICE_NAME'';
          name = (if name = [] then ''regelmaesig'' else name)
      in [(''service.name'', name), (''service.version'', serviceVersion env)])"

definition samplerRatio :: "environ \<Rightarrow> float64" where
  "samplerRatio env =
     (let v = Getenv env ''OTEL_TRACES_SAMPLER_ARG''
      in if v \<noteq> [] \<and> snd (ParseFloat v) = None then fst (ParseFloat v) else Fin 1)"

text \<open>What the SDK answers: the errors of \<open>otlptracegrpc.New\<close> and of \<open>resource.Merge\<close>.\<close>

record sdk =
  exporter_error :: "go_error option"
  merge_error :: "go_error option"

record tracer_provider =
  tp_ratio :: float64
  tp_attrs :: "(string \<times> string) list"

text \<open>The provider that was installed, if any, whose \<open>Shutdown\<close> is the function returned (it is
  a no-op otherwise); the error; the line logged.\<close>

definition setupTracing :: "environ \<Rightarrow> sdk \<Rightarrow> tracer_provider option \<times> go_error option \<times> string list" where
  "setupTracing env sdk =
     (let (ep, enabled, reason) = tracingEnabledFromEnv env
      in if \<not> enabled then (None, None, [''tracing disabled: '' @ reason])
         else case exporter_error sdk of
           Some err \<Rightarrow> (None, Some err, [])
         | None \<Rightarrow> (case merge_error sdk of
             Some err \<Rightarrow> (None, Some err, [])
           | None \<Rightarrow> (Some \<lparr>tp_ratio = samplerRatio env, tp_attrs = resourceAttrs env\<rparr>, None,
                     [''tracing enabled'', ep])))"

section \<open>The HAFAS client\<close>

text \<open>\<open>instrumentedHTTPClient\<close>: the library's client for a timeout, a parameter.\<close>

definition hafas_from_env :: "environ \<Rightarrow> (int \<Rightarrow> http_client) \<Rightarrow> config \<Rightarrow> HAFASClient option" where
  "hafas_from_env env instrumentedHTTPClient cfg =
     (let ep = Getenv env ''HAFAS_ENDPOINT''; aid = Getenv env ''HAFAS_AUTH_AID''
      in if ep \<noteq> [] \<and> aid \<noteq> []
         then let ver = Getenv env ''HAFAS_VERSION'';
                  ver = (if ver = [] then DefaultHAFASVersion else ver)
              in Some (NewHAFASClient (instrumentedHTTPClient (Timeout cfg)) ep aid ver)
         else None)"

text \<open>The server that \<open>run\<close> serves, and what its handlers find outside.\<close>

definition started_server :: "config \<Rightarrow> server" where
  "started_server cfg = newMux (StaticCacheSize cfg) (DynamicCacheSize cfg)"

section \<open>\<open>run\<close>\<close>

datatype run_error = SetUpTracing go_error | ServerShutdown go_error | ServerFailed go_error

datatype serving = Listening | Reporting "go_error option" | Reported
datatype running = Selecting | Stopping | Returning "run_error option" | Returned "run_error option"

text \<open>The goroutine that serves, the main one, the channel between them, the signals, whether
  \<open>srv.Shutdown\<close> was called, and how often the function returned by \<open>setupTracing\<close> was.\<close>

record process =
  serving_at :: serving
  running_at :: running
  serveErr :: "go_error option list"
  signalled :: bool
  shut_down :: bool
  tracing_stops :: nat

definition run_start :: "environ \<Rightarrow> sdk \<Rightarrow> process" where
  "run_start env sdk =
     \<lparr>serving_at = (if fst (snd (setupTracing env sdk)) = None then Listening else Reported),
      running_at = (case fst (snd (setupTracing env sdk)) of
        None \<Rightarrow> Selecting | Some err \<Rightarrow> Returned (Some (SetUpTracing err))),
      serveErr = [], signalled = False, shut_down = False, tracing_stops = 0\<rparr>"

text \<open>\<open>ListenAndServe\<close> ends with an error of its own at any time, and with \<open>ErrServerClosed\<close> only
  when the server was shut down.  The channel has room for one value; the \<open>select\<close> takes either
  case that is ready.  The deferred shutdown of tracing runs before \<open>run\<close> returns; its error is
  only logged.\<close>

inductive run_step :: "process \<Rightarrow> process \<Rightarrow> bool" where
  signal: "run_step p (p\<lparr>signalled := True\<rparr>)"
| listen_error: "serving_at p = Listening \<Longrightarrow> run_step p (p\<lparr>serving_at := Reporting (Some err)\<rparr>)"
| listen_closed: "serving_at p = Listening \<Longrightarrow> shut_down p \<Longrightarrow> run_step p (p\<lparr>serving_at := Reporting None\<rparr>)"
| report: "serving_at p = Reporting x \<Longrightarrow> length (serveErr p) < 1 \<Longrightarrow>
    run_step p (p\<lparr>serving_at := Reported, serveErr := serveErr p @ [x]\<rparr>)"
| stop: "running_at p = Selecting \<Longrightarrow> signalled p \<Longrightarrow>
    run_step p (p\<lparr>running_at := Stopping, shut_down := True\<rparr>)"
| stopped: "running_at p = Stopping \<Longrightarrow>
    run_step p (p\<lparr>running_at := Returning (map_option ServerShutdown err)\<rparr>)"
| ended: "running_at p = Selecting \<Longrightarrow> serveErr p = x # xs \<Longrightarrow>
    run_step p (p\<lparr>running_at := Returning (map_option ServerFailed x), serveErr := xs\<rparr>)"
| finish: "running_at p = Returning x \<Longrightarrow>
    run_step p (p\<lparr>running_at := Returned x, tracing_stops := Suc (tracing_stops p)\<rparr>)"

inductive_cases run_stepE: "run_step p q"

text \<open>\<open>main\<close> exits with 1 when \<open>run\<close> returned an error, and else with 0.\<close>

fun exit_code :: "running \<Rightarrow> int option" where
  "exit_code (Returned err) = Some (if err = None then 0 else 1)"
| "exit_code _ = None"

definition run_inv :: "bool \<Rightarrow> process \<Rightarrow> bool" where
  "run_inv set_up p \<longleftrightarrow>
     (set_up \<longrightarrow> tracing_stops p = (case running_at p of Returned _ \<Rightarrow> 1 | _ \<Rightarrow> 0))
   \<and> (\<not> set_up \<longrightarrow> tracing_stops p = 0 \<and> serving_at p = Reported
        \<and> (\<exists>err. running_at p = Returned (Some (SetUpTracing err))))
   \<and> (shut_down p \<longrightarrow> signalled p)
   \<and> (serving_at p \<noteq> Reported \<longrightarrow> serveErr p = [])
   \<and> (\<not> shut_down p \<longrightarrow> None \<notin> set (serveErr p) \<and> serving_at p \<noteq> Reporting None)
   \<and> (case running_at p of Selecting \<Rightarrow> \<not> shut_down p | Stopping \<Rightarrow> shut_down p
        | Returning x \<Rightarrow> shut_down p \<longleftrightarrow> (\<forall>e. x \<noteq> Some (ServerFailed e))
        | Returned x \<Rightarrow> set_up \<longrightarrow> (shut_down p \<longleftrightarrow> (\<forall>e. x \<noteq> Some (ServerFailed e))))
   \<and> (running_at p = Selecting \<longrightarrow> serving_at p = Reported \<longrightarrow> serveErr p \<noteq> [])"

lemma run_inv_start: "run_inv (fst (snd (setupTracing env sdk)) = None) (run_start env sdk)"
  by (auto simp: run_inv_def run_start_def split: option.splits)

lemma run_inv_step: "run_step p q \<Longrightarrow> run_inv set_up p \<Longrightarrow> run_inv set_up q"
  by (induction rule: run_step.induct)
    (auto simp: run_inv_def eq_commute [of None] split: running.splits option.splits)

abbreviation run_steps :: "process \<Rightarrow> process \<Rightarrow> bool" where
  "run_steps \<equiv> run_step\<^sup>*\<^sup>*"

lemma run_inv_steps:
  "run_steps p q \<Longrightarrow> run_inv set_up p \<Longrightarrow> run_inv set_up q"
  by (induction rule: rtranclp_induct) (auto intro: run_inv_step)

lemmas run_reaches = run_inv_steps [OF _ run_inv_start]

text \<open>Whatever state it is in, a process that was signalled, or whose server has ended, can go on to
  its end on its own.\<close>

lemma returning_ends: "running_at p = Returning x \<Longrightarrow> \<exists>q. run_steps p q \<and> running_at q = Returned x"
  by (intro exI conjI, rule r_into_rtranclp, rule finish) simp_all

lemma stopping_ends:
  assumes "running_at p = Stopping"
  shows "\<exists>q x. run_steps p q \<and> running_at q = Returned x"
  using returning_ends [of "p\<lparr>running_at := Returning (map_option ServerShutdown None)\<rparr>"]
    stopped [OF assms, of None] by (auto dest: converse_rtranclp_into_rtranclp)

lemma process_ends:
  assumes inv: "run_inv set_up p" and go: "signalled p \<or> serving_at p \<noteq> Listening"
  shows "\<exists>q x. run_steps p q \<and> running_at q = Returned x"
proof (cases "running_at p")
  case sel: Selecting
  have ended: "\<exists>q x. run_steps p q \<and> running_at q = Returned x"
    if "running_at p = Selecting" "serveErr p = y # ys" for p y ys
    using returning_ends [of "p\<lparr>running_at := Returning (map_option ServerFailed y), serveErr := ys\<rparr>"]
      run_step.ended [OF that] by (auto dest: converse_rtranclp_into_rtranclp)
  show ?thesis
  proof (cases "serving_at p")
    case Listening
    then have "run_step p (p\<lparr>running_at := Stopping, shut_down := True\<rparr>)"
      using stop sel go by simp
    then show ?thesis
      using stopping_ends [of "p\<lparr>running_at := Stopping, shut_down := True\<rparr>"]
      by (auto dest: converse_rtranclp_into_rtranclp)
  next
    case (Reporting x)
    then have "serveErr p = []" using inv by (simp add: run_inv_def)
    then show ?thesis
      using ended [of "p\<lparr>serving_at := Reported, serveErr := serveErr p @ [x]\<rparr>"] report [OF Reporting] sel
      by (auto dest: converse_rtranclp_into_rtranclp)
  next
    case Reported
    then have "serveErr p \<noteq> []" using inv sel by (simp add: run_inv_def)
    then show ?thesis using ended sel by (cases "serveErr p") auto
  qed
next
  case Stopping
  then show ?thesis by (rule stopping_ends)
next
  case (Returning x)
  then show ?thesis using returning_ends by blast
qed blast



section \<open>The guards\<close>

text \<open>Tracing is enabled exactly if an OTLP endpoint is configured and the exporter is not
  \<open>none\<close>, with the endpoint for traces before the general one; a tracer is installed exactly if
  it is enabled and neither the exporter nor the resource failed, and an error is reported exactly if it is
  enabled and one of them did.\<close>

theorem tracing_guard:
  "let traces = Getenv env ''OTEL_EXPORTER_OTLP_TRACES_ENDPOINT'';
       general = Getenv env ''OTEL_EXPORTER_OTLP_ENDPOINT'';
       on = (Getenv env ''OTEL_TRACES_EXPORTER'' \<noteq> ''none'' \<and> (traces \<noteq> [] \<or> general \<noteq> []));
       works = (exporter_error sdk = None \<and> merge_error sdk = None)
   in fst (snd (tracingEnabledFromEnv env)) = on
    \<and> fst (tracingEnabledFromEnv env) = (if \<not> on then [] else if traces \<noteq> [] then traces else general)
    \<and> (fst (setupTracing env sdk) \<noteq> None \<longleftrightarrow> on \<and> works)
    \<and> (fst (snd (setupTracing env sdk)) \<noteq> None \<longleftrightarrow> on \<and> \<not> works)"
  by (auto simp: tracingEnabledFromEnv_def setupTracing_def Let_def split: option.splits)

text \<open>The fallback to HAFAS is there exactly if both its endpoint and its identification are
  configured; its version is then never empty, and without it the providers of every route are
  transport.rest alone.\<close>

theorem hafas_guard:
  "case hafas_from_env env client cfg of
     None \<Rightarrow> (Getenv env ''HAFAS_ENDPOINT'' = [] \<or> Getenv env ''HAFAS_AUTH_AID'' = [])
       \<and> with_hafas fetch (senv\<lparr>env_hafas := hafas_from_env env client cfg\<rparr>) = restOnly senv
   | Some h \<Rightarrow> endpoint h = Getenv env ''HAFAS_ENDPOINT'' \<and> endpoint h \<noteq> []
       \<and> authAID h = Getenv env ''HAFAS_AUTH_AID'' \<and> authAID h \<noteq> []
       \<and> version h = (if Getenv env ''HAFAS_VERSION'' = [] then ''1.45'' else Getenv env ''HAFAS_VERSION'')
       \<and> httpClient h = client (Timeout cfg)"
  by (auto simp: hafas_from_env_def NewHAFASClient_def DefaultHAFASVersion_def with_hafas_def
      restOnly_def Let_def split: if_splits)

end
