(* ===== verification/Concurrent.thy ===== *)
theory Concurrent
  imports Outage
begin

text \<open>
  The server as a whole: its specification over plain LRU lists, and requests that overlap in time.
\<close>

section \<open>The specification of the server\<close>

text \<open>What a client may know of a server: the entries of the two tiers in the order of their use.\<close>

record tiers =
  static_entries :: lru
  dynamic_entries :: lru

definition abs_server :: "server \<Rightarrow> tiers" where
  "abs_server s = \<lparr>static_entries = abs_cache (staticCache s), dynamic_entries = abs_cache (dynamicCache s)\<rparr>"

text \<open>The specification: the pattern that fits best names the route, the route decides on its access,
  and the access is made on the list of its tier.\<close>

definition spec_route ::
  "int \<Rightarrow> int \<Rightarrow> tier \<Rightarrow> access \<Rightarrow> tiers \<Rightarrow> (response option \<times> tiers) logged" where
  "spec_route staticCap dynamicCap t a T =
     (case t of
        NoCache \<Rightarrow> (let ((resp, _), evs) = perform_lru 0 a [] in ((Some resp, T), evs))
      | Static \<Rightarrow> (let ((resp, l), evs) = perform_lru staticCap a (static_entries T)
                  in ((Some resp, T\<lparr>static_entries := l\<rparr>), evs))
      | Dynamic \<Rightarrow> (let ((resp, l), evs) = perform_lru dynamicCap a (dynamic_entries T)
                   in ((Some resp, T\<lparr>dynamic_entries := l\<rparr>), evs)))"

text \<open>What a request is going to do, decided without looking at a cache.\<close>

definition plan_of :: "server_env \<Rightarrow> request \<Rightarrow> (tier \<times> access) option" where
  "plan_of env r = (case findHandler (Method r) (URL r) of
     Handler p h ms \<Rightarrow> Some (tier_of h, access_of env h (matched p ms r))
   | _ \<Rightarrow> None)"

definition spec_serve ::
  "int \<Rightarrow> int \<Rightarrow> server_env \<Rightarrow> request \<Rightarrow> tiers \<Rightarrow> (response option \<times> tiers) logged" where
  "spec_serve staticCap dynamicCap env r T =
     (case plan_of env r of
        None \<Rightarrow> ((None, T), [])
      | Some (t, a) \<Rightarrow> spec_route staticCap dynamicCap t a T)"

definition put_tier :: "tier \<Rightarrow> cache \<Rightarrow> server \<Rightarrow> server" where
  "put_tier t c s = (case t of NoCache \<Rightarrow> s | Static \<Rightarrow> s\<lparr>staticCache := c\<rparr> | Dynamic \<Rightarrow> s\<lparr>dynamicCache := c\<rparr>)"

lemma ServeHTTP_plan:
  "ServeHTTP env r s =
     (case plan_of env r of
        None \<Rightarrow> ((None, s), [])
      | Some (t, a) \<Rightarrow> (let ((resp, c), evs) = perform a (cache_of t s) in ((Some resp, put_tier t c s), evs)))"
  by (auto simp: ServeHTTP_def plan_of_def run_route_def handler_performs put_tier_def cache_of_def Let_def
      split: dispatched.splits tier.splits prod.splits)

definition tiers_inv :: "int \<Rightarrow> int \<Rightarrow> server \<Rightarrow> bool" where
  "tiers_inv a b s \<longleftrightarrow> cache_inv (staticCache s) \<and> cache_cap (staticCache s) = a
     \<and> cache_inv (dynamicCache s) \<and> cache_cap (dynamicCache s) = b"

lemma perform_keeps:
  "perform a c = ((resp, c'), evs) \<Longrightarrow> cache_inv c \<Longrightarrow> cache_inv c' \<and> cache_cap c' = cache_cap c"
  using Get_inv [of c] Get_cap [of _ _ c]
  by (cases a) (auto simp: Set_inv Set_cap split: prod.splits, (metis snd_conv)+)

text \<open>One request: the two agree on the response and on the events, and their states correspond.\<close>

lemma serve_refines:
  assumes "tiers_inv a b s" and "ServeHTTP env r s = ((resp, s'), evs)"
  shows "spec_serve a b env r (abs_server s) = ((resp, abs_server s'), evs)" and "tiers_inv a b s'"
proof -
  have "spec_serve a b env r (abs_server s) = ((resp, abs_server s'), evs) \<and> tiers_inv a b s'"
  proof (cases "plan_of env r")
    case None
    then show ?thesis using assms by (simp add: ServeHTTP_plan spec_serve_def)
  next
    case (Some p)
    obtain t ac where p: "p = (t, ac)" by (cases p)
    obtain out c where pf: "perform ac (cache_of t s) = ((out, c), evs)" "resp = Some out" "s' = put_tier t c s"
      using assms(2) Some p by (auto simp: ServeHTTP_plan split: prod.splits)
    have inv: "cache_inv (cache_of t s)" using assms(1) by (cases t) (simp_all add: tiers_inv_def)
    have abs: "perform_lru (cache_cap (cache_of t s)) ac (abs_cache (cache_of t s)) = ((out, abs_cache c), evs)"
      using perform_refines [OF inv, of ac] pf(1) by simp
    show ?thesis
      using abs perform_keeps [OF pf(1) inv] assms(1) pf(2,3) Some p
      by (cases t) (auto simp: spec_serve_def spec_route_def put_tier_def abs_server_def tiers_inv_def NewCache_abs)
  qed
  then show "spec_serve a b env r (abs_server s) = ((resp, abs_server s'), evs)" "tiers_inv a b s'" by simp_all
qed

fun run_server :: "(server_env \<times> request) list \<Rightarrow> server \<Rightarrow> response option list \<times> server" where
  "run_server [] s = ([], s)"
| "run_server ((env, r) # rs) s =
     (let ((resp, s'), _) = ServeHTTP env r s; (resps, s'') = run_server rs s' in (resp # resps, s''))"

fun run_spec ::
  "int \<Rightarrow> int \<Rightarrow> (server_env \<times> request) list \<Rightarrow> tiers \<Rightarrow> response option list \<times> tiers" where
  "run_spec a b [] T = ([], T)"
| "run_spec a b ((env, r) # rs) T =
     (let ((resp, T'), _) = spec_serve a b env r T; (resps, T'') = run_spec a b rs T' in (resp # resps, T''))"

lemma run_refines_spec:
  "tiers_inv a b s \<Longrightarrow>
     run_spec a b rs (abs_server s) = (let (resps, s') = run_server rs s in (resps, abs_server s'))"
proof (induction rs arbitrary: s)
  case (Cons x rs)
  obtain env r where x: "x = (env, r)" by (cases x)
  obtain resp s' evs where step: "ServeHTTP env r s = ((resp, s'), evs)" by (metis surj_pair)
  from serve_refines [OF Cons.prems step] Cons.IH show ?case
    by (simp add: x step split: prod.splits)
qed simp

lemma tiers_inv_new: "tiers_inv a b (newMux a b)"
  by (simp add: tiers_inv_def newMux_def)

text \<open>C7. The server implements its specification: whatever requests come, in whatever
  surroundings, its answers are those of a server whose caches are plain lists in the order of their
  use, and its pointer structures represent these lists throughout.\<close>

theorem server_refines_spec:
  "run_spec staticCap dynamicCap rs \<lparr>static_entries = [], dynamic_entries = []\<rparr>
     = (let (resps, s) = run_server rs (newMux staticCap dynamicCap) in (resps, abs_server s))"
proof -
  have "abs_server (newMux staticCap dynamicCap) = \<lparr>static_entries = [], dynamic_entries = []\<rparr>"
    by (simp add: abs_server_def newMux_def NewCache_abs)
  with run_refines_spec [OF tiers_inv_new, of staticCap dynamicCap rs] show ?thesis by simp
qed

lemma run_server_append:
  "run_server (xs @ ys) s =
     (let (resps, s') = run_server xs s; (resps', s'') = run_server ys s' in (resps @ resps', s''))"
  by (induction xs arbitrary: s) (auto split: prod.splits)

section \<open>Requests that overlap\<close>

text \<open>
  A request arrives, and decides on its access while others do the same; it makes the access, and it
  is answered, both at any time.  Every connection has a number of its own.
\<close>

datatype flight =
    Deciding server_env request
  | Ready "response option"
  | Gone

datatype observation = Arrived nat server_env request | Replied nat "response option"

record overlap =
  ov_server :: server
  flights :: "nat \<Rightarrow> flight option"
  observed :: "observation list"
  accesses :: "(nat \<times> server_env \<times> request \<times> response option) list"  \<comment> \<open>in the order of the accesses\<close>

definition ov_start :: "int \<Rightarrow> int \<Rightarrow> overlap" where
  "ov_start staticCap dynamicCap =
     \<lparr>ov_server = newMux staticCap dynamicCap, flights = (\<lambda>_. None), observed = [], accesses = []\<rparr>"

inductive ov_step :: "overlap \<Rightarrow> overlap \<Rightarrow> bool" where
  arrive: "flights v i = None \<Longrightarrow>
    ov_step v (v\<lparr>flights := (flights v)(i := Some (Deciding env r)), observed := observed v @ [Arrived i env r]\<rparr>)"
| access: "flights v i = Some (Deciding env r) \<Longrightarrow> plan_of env r = Some (t, a) \<Longrightarrow>
    perform a (cache_of t (ov_server v)) = ((resp, c), evs) \<Longrightarrow>
    ov_step v (v\<lparr>ov_server := put_tier t c (ov_server v), flights := (flights v)(i := Some (Ready (Some resp))),
      accesses := accesses v @ [(i, env, r, Some resp)]\<rparr>)"
| no_access: "flights v i = Some (Deciding env r) \<Longrightarrow> plan_of env r = None \<Longrightarrow>
    ov_step v (v\<lparr>flights := (flights v)(i := Some (Ready None)), accesses := accesses v @ [(i, env, r, None)]\<rparr>)"
| reply: "flights v i = Some (Ready resp) \<Longrightarrow>
    ov_step v (v\<lparr>flights := (flights v)(i := Some Gone), observed := observed v @ [Replied i resp]\<rparr>)"

inductive_cases ov_stepE: "ov_step v v'"

abbreviation ov_steps :: "overlap \<Rightarrow> overlap \<Rightarrow> bool" where
  "ov_steps \<equiv> ov_step\<^sup>*\<^sup>*"

abbreviation asked :: "nat \<times> server_env \<times> request \<times> response option \<Rightarrow> server_env \<times> request" where
  "asked x \<equiv> (fst (snd x), fst (snd (snd x)))"

abbreviation answered :: "nat \<times> server_env \<times> request \<times> response option \<Rightarrow> response option" where
  "answered x \<equiv> snd (snd (snd x))"

text \<open>The order of the accesses is a sequential run with the same answers.\<close>

definition replayable :: "int \<Rightarrow> int \<Rightarrow> overlap \<Rightarrow> bool" where
  "replayable a b v \<longleftrightarrow>
     run_server (map asked (accesses v)) (newMux a b) = (map answered (accesses v), ov_server v)"

text \<open>What the state of a flight says of it.\<close>

definition recorded_as :: "overlap \<Rightarrow> nat \<Rightarrow> response option \<Rightarrow> bool" where
  "recorded_as v i resp \<longleftrightarrow>
     (\<exists>env r. (i, env, r, resp) \<in> set (accesses v) \<and> Arrived i env r \<in> set (observed v))"

definition made :: "overlap \<Rightarrow> nat set" where
  "made v = fst ` set (accesses v)"

fun flight_ok :: "overlap \<Rightarrow> nat \<Rightarrow> flight option \<Rightarrow> bool" where
  "flight_ok v i None \<longleftrightarrow> i \<notin> made v"
| "flight_ok v i (Some (Deciding env r)) \<longleftrightarrow> i \<notin> made v \<and> Arrived i env r \<in> set (observed v)"
| "flight_ok v i (Some (Ready resp)) \<longleftrightarrow> recorded_as v i resp"
| "flight_ok v i (Some Gone) \<longleftrightarrow> True"

definition flights_inv :: "overlap \<Rightarrow> bool" where
  "flights_inv v \<longleftrightarrow> distinct (map fst (accesses v)) \<and> (\<forall>i. flight_ok v i (flights v i))
     \<and> (\<forall>i resp. Replied i resp \<in> set (observed v) \<longrightarrow> recorded_as v i resp)"

lemma recorded_mono:
  "recorded_as v i resp \<Longrightarrow> set (accesses v) \<subseteq> set (accesses v') \<Longrightarrow> set (observed v) \<subseteq> set (observed v') \<Longrightarrow>
     recorded_as v' i resp"
  by (auto simp: recorded_as_def)

lemma recordedI:
  "(i, env, r, resp) \<in> set (accesses v) \<Longrightarrow> Arrived i env r \<in> set (observed v) \<Longrightarrow> recorded_as v i resp"
  by (auto simp: recorded_as_def)

lemma flight_ok_mono:
  assumes "flight_ok v i f" and "set (accesses v) \<subseteq> set (accesses v')" and "set (observed v) \<subseteq> set (observed v')"
    and "made v' \<subseteq> insert j (made v)" and "i \<noteq> j"
  shows "flight_ok v' i f"
  using assms by (cases "(v, i, f)" rule: flight_ok.cases) (auto dest: recorded_mono)

text \<open>What was answered before something arrived was accessed before it.\<close>

definition in_time :: "overlap \<Rightarrow> bool" where
  "in_time v \<longleftrightarrow> (\<forall>xs ys. observed v = xs @ ys \<longrightarrow>
     (\<exists>ps qs. accesses v = ps @ qs
       \<and> (\<forall>i resp. Replied i resp \<in> set xs \<longrightarrow> i \<in> fst ` set ps)
       \<and> (\<forall>j env r. Arrived j env r \<in> set ys \<longrightarrow> j \<notin> fst ` set ps)))"

lemma ov_start_inv: "replayable a b (ov_start a b)" "flights_inv (ov_start a b)" "in_time (ov_start a b)"
  by (simp_all add: replayable_def flights_inv_def in_time_def ov_start_def made_def)

lemma replayable_step: "ov_step v v' \<Longrightarrow> replayable a b v \<Longrightarrow> replayable a b v'"
  by (induction rule: ov_step.induct)
    (auto simp: replayable_def run_server_append ServeHTTP_plan split: prod.splits)

text \<open>A step of flight \<open>i\<close> leaves what is known of the others.\<close>

lemma flights_invI:
  assumes "flights_inv v" and "flights v' = (flights v)(i := f)" and "flight_ok v' i f"
    and "accesses v' = accesses v @ as" and "observed v' = observed v @ obs"
    and "distinct (map fst (accesses v'))" and "fst ` set as \<subseteq> {i}"
    and "\<And>j resp. Replied j resp \<in> set obs \<Longrightarrow> recorded_as v' j resp"
  shows "flights_inv v'"
proof -
  have sub: "set (accesses v) \<subseteq> set (accesses v')" "set (observed v) \<subseteq> set (observed v')"
    "made v' \<subseteq> insert i (made v)"
    using assms(4,5,7) by (auto simp: made_def)
  have "flight_ok v' j (flights v' j)" for j
    using assms(1-3) flight_ok_mono [OF _ sub, of j "flights v j"]
    by (cases "j = i") (auto simp: flights_inv_def)
  moreover have "recorded_as v' j resp" if "Replied j resp \<in> set (observed v')" for j resp
    using that assms(1,5,8) recorded_mono [OF _ sub(1,2)] by (auto simp: flights_inv_def)
  ultimately show ?thesis using assms(6) by (simp add: flights_inv_def)
qed

lemma flights_at: "flights_inv v \<Longrightarrow> flights v i = f \<Longrightarrow> flight_ok v i f"
  by (auto simp: flights_inv_def)

lemma flights_distinct: "flights_inv v \<Longrightarrow> distinct (map fst (accesses v))"
  by (simp add: flights_inv_def)

lemma flights_step: "ov_step v v' \<Longrightarrow> flights_inv v \<Longrightarrow> flights_inv v'"
proof (induction rule: ov_step.induct)
  case (arrive v i env r)
  from flights_at [OF arrive(2,1)] show ?case
    by (intro flights_invI [OF arrive(2), where i = i and as = "[]"])
      (auto simp: made_def flights_distinct [OF arrive(2)])
next
  case (access v i env r t a resp c evs)
  from flights_at [OF access(4,1)] show ?case
    by (intro flights_invI [OF access(4), where i = i and obs = "[]"])
      (auto simp: made_def flights_distinct [OF access(4)] intro!: recordedI [where env = env and r = r])
next
  case (no_access v i env r)
  from flights_at [OF no_access(3,1)] show ?case
    by (intro flights_invI [OF no_access(3), where i = i and obs = "[]"])
      (auto simp: made_def flights_distinct [OF no_access(3)] intro!: recordedI [where env = env and r = r])
next
  case (reply v i resp)
  from flights_at [OF reply(2,1)] show ?case
    by (intro flights_invI [OF reply(2), where i = i and as = "[]"])
      (auto simp: flights_distinct [OF reply(2)] intro: recorded_mono [of v])
qed

lemma in_timeI:
  assumes "in_time v" and "accesses v' = accesses v @ as" and "observed v' = observed v @ obs" and "length obs \<le> 1"
    and "\<And>j env r. Arrived j env r \<in> set obs \<Longrightarrow> j \<notin> made v"
    and "\<And>i resp. Replied i resp \<in> set (observed v') \<Longrightarrow> i \<in> made v'"
  shows "in_time v'"
  unfolding in_time_def
proof (intro allI impI)
  fix xs ys
  assume split: "observed v' = xs @ ys"
  show "\<exists>ps qs. accesses v' = ps @ qs \<and> (\<forall>i resp. Replied i resp \<in> set xs \<longrightarrow> i \<in> fst ` set ps)
      \<and> (\<forall>j env r. Arrived j env r \<in> set ys \<longrightarrow> j \<notin> fst ` set ps)"
  proof (cases "ys = []")
    case True
    then show ?thesis using assms(6) split by (intro exI [of _ "accesses v'"] exI [of _ "[]"]) (auto simp: made_def)
  next
    case False
    then obtain ys' y where y: "ys = ys' @ [y]" by (cases ys rule: rev_cases) auto
    have "\<exists>zs. observed v = xs @ zs \<and> ys = zs @ obs"
    proof (cases obs)
      case Nil
      then show ?thesis using split assms(3) by simp
    next
      case (Cons ob obs')
      then have "obs = [ob]" using assms(4) by simp
      then show ?thesis using split assms(3) y by simp
    qed
    then obtain zs where zs: "observed v = xs @ zs" "ys = zs @ obs" by blast
    from assms(1) [unfolded in_time_def, rule_format, OF zs(1)]
    obtain ps qs where ps: "accesses v = ps @ qs" "\<And>i resp. Replied i resp \<in> set xs \<Longrightarrow> i \<in> fst ` set ps"
        "\<And>j env r. Arrived j env r \<in> set zs \<Longrightarrow> j \<notin> fst ` set ps"
      by blast
    have "j \<notin> fst ` set ps" if "Arrived j env r \<in> set ys" for j env r
    proof (cases "Arrived j env r \<in> set obs")
      case True
      from assms(5) [OF this] show ?thesis by (simp add: made_def ps(1) image_Un)
    next
      case False
      then show ?thesis using that zs(2) ps(3) by simp
    qed
    then show ?thesis using ps(1,2) assms(2) by (intro exI [of _ ps] exI [of _ "qs @ as"]) auto
  qed
qed

lemma replied_made: "flights_inv v \<Longrightarrow> Replied i resp \<in> set (observed v) \<Longrightarrow> i \<in> made v"
  by (force simp: flights_inv_def recorded_as_def made_def)

lemma in_time_step:
  assumes "ov_step v v'" and "flights_inv v" and "in_time v"
  shows "in_time v'"
proof -
  note made = replied_made [OF flights_step [OF assms(1,2)]]
  from assms(1) show ?thesis
  proof cases
    case (arrive i env r)
    from flights_at [OF assms(2) arrive(2)] show ?thesis
      using arrive(1) made by (intro in_timeI [OF assms(3), where as = "[]"]) auto
  next
    case (access i env r t a resp c evs)
    then show ?thesis using made by (intro in_timeI [OF assms(3), where obs = "[]"]) auto
  next
    case (no_access i env r)
    then show ?thesis using made by (intro in_timeI [OF assms(3), where obs = "[]"]) auto
  next
    case (reply i resp)
    then show ?thesis using made by (intro in_timeI [OF assms(3), where as = "[]"]) auto
  qed
qed

lemma overlap_inv:
  "ov_steps (ov_start a b) v \<Longrightarrow> replayable a b v \<and> flights_inv v \<and> in_time v"
  by (induction rule: rtranclp_induct)
    (auto intro: ov_start_inv replayable_step flights_step in_time_step)

lemma run_server_inv: "tiers_inv a b s \<Longrightarrow> tiers_inv a b (snd (run_server rs s))"
proof (induction rs arbitrary: s)
  case (Cons x rs)
  obtain env r where x: "x = (env, r)" by (cases x)
  obtain resp s' evs where step: "ServeHTTP env r s = ((resp, s'), evs)" by (metis surj_pair)
  from Cons.IH [OF serve_refines(2) [OF Cons.prems step]] show ?case
    by (cases "run_server rs s'") (simp add: x step)
qed simp

text \<open>C2. Linearizability.  However requests overlap, the order of their accesses to the caches is a
  sequential history of the server: run one after the other in that order, they get the very answers
  they got, and leave the same caches, within their capacities; every answer belongs to a request
  that arrived; and a request that was answered before another arrived comes before it.\<close>

theorem overlapping_requests_linearizable:
  assumes "ov_steps (ov_start staticCap dynamicCap) v"
  shows "run_server (map asked (accesses v)) (newMux staticCap dynamicCap) = (map answered (accesses v), ov_server v)
    \<and> tiers_inv staticCap dynamicCap (ov_server v)
    \<and> distinct (map fst (accesses v))
    \<and> (\<forall>i resp. Replied i resp \<in> set (observed v) \<longrightarrow>
         (\<exists>env r. (i, env, r, resp) \<in> set (accesses v) \<and> Arrived i env r \<in> set (observed v)))
    \<and> (\<forall>xs ys i resp j env r. observed v = xs @ ys \<and> Replied i resp \<in> set xs \<and> Arrived j env r \<in> set ys \<longrightarrow>
         (\<exists>ps qs. accesses v = ps @ qs \<and> i \<in> fst ` set ps \<and> j \<notin> fst ` set ps))"
proof -
  have inv: "replayable staticCap dynamicCap v" "flights_inv v" "in_time v"
    using overlap_inv [OF assms] by simp_all
  have "tiers_inv staticCap dynamicCap (ov_server v)"
    using run_server_inv [OF tiers_inv_new, of staticCap dynamicCap "map asked (accesses v)"] inv(1)
    by (simp add: replayable_def)
  moreover have "\<exists>ps qs. accesses v = ps @ qs \<and> i \<in> fst ` set ps \<and> j \<notin> fst ` set ps"
    if "observed v = xs @ ys" "Replied i resp \<in> set xs" "Arrived j env r \<in> set ys" for xs ys i resp j env r
    using inv(3) that unfolding in_time_def by meson
  ultimately show ?thesis
    using inv(1,2) by (auto simp: replayable_def flights_inv_def recorded_as_def)
qed

lemma overlap_step_to:
  "flights v i = Some (Deciding env r) \<Longrightarrow>
     \<exists>v' resp. ov_step v v' \<and> flights v' = (flights v)(i := Some (Ready resp)) \<and> observed v' = observed v"
proof (cases "plan_of env r")
  case None
  assume "flights v i = Some (Deciding env r)"
  from no_access [OF this None] show ?thesis by force
next
  case (Some p)
  assume f: "flights v i = Some (Deciding env r)"
  obtain t a where p: "p = (t, a)" by (cases p)
  obtain resp c evs where "perform a (cache_of t (ov_server v)) = ((resp, c), evs)" by (metis surj_pair)
  from access [OF f Some [unfolded p] this] show ?thesis by force
qed

text \<open>No request waits for another: in whatever state the others are, one that has decided on its
  access is answered after two steps of its own, in which the others do not move.\<close>

theorem no_request_waits:
  assumes "flights v i = Some (Deciding env r)"
  shows "\<exists>v' resp. (ov_step ^^ 2) v v' \<and> flights v' = (flights v)(i := Some Gone)
    \<and> observed v' = observed v @ [Replied i resp]"
proof -
  obtain v1 resp where 1: "ov_step v v1" "flights v1 = (flights v)(i := Some (Ready resp))" "observed v1 = observed v"
    using overlap_step_to [OF assms] by blast
  have "flights v1 i = Some (Ready resp)" using 1(2) by simp
  note 2 = reply [OF this]
  have "(ov_step ^^ 2) v (v1\<lparr>flights := (flights v1)(i := Some Gone), observed := observed v1 @ [Replied i resp]\<rparr>)"
    using 1(1) 2 by (auto simp: numeral_2_eq_2 relcompp.simps)
  then show ?thesis using 1(2,3) by (intro exI conjI) (assumption, simp_all)
qed

text \<open>Two requests for the same stop, in flight at once.\<close>

lemma two_in_flight:
  "\<exists>v. ov_steps (ov_start 1 1) v \<and> flights v 0 = Some (Deciding (sample_env unreachable) sample_request)
     \<and> flights v 1 = Some (Deciding (sample_env unreachable) sample_request) \<and> length (observed v) = 2"
proof -
  let ?e = "sample_env unreachable" and ?r = sample_request
  define u where "u = (ov_start 1 1)\<lparr>flights := (flights (ov_start 1 1))(0 := Some (Deciding ?e ?r)),
    observed := observed (ov_start 1 1) @ [Arrived 0 ?e ?r]\<rparr>"
  define v where "v = u\<lparr>flights := (flights u)(1 := Some (Deciding ?e ?r)),
    observed := observed u @ [Arrived 1 ?e ?r]\<rparr>"
  have "ov_step (ov_start 1 1) u" unfolding u_def by (rule arrive) (simp add: ov_start_def)
  moreover have "ov_step u v" unfolding v_def by (rule arrive) (simp add: u_def ov_start_def)
  ultimately have "ov_steps (ov_start 1 1) v" by (meson converse_rtranclp_into_rtranclp r_into_rtranclp)
  moreover have "flights v = (\<lambda>_. None)(0 := Some (Deciding ?e ?r), 1 := Some (Deciding ?e ?r))"
    "length (observed v) = 2"
    by (simp_all add: v_def u_def ov_start_def)
  ultimately show ?thesis by (intro exI [of _ v]) simp
qed

theorem no_request_waits_witness:
  "\<exists>v v' resp. ov_steps (ov_start 1 1) v \<and> (ov_step ^^ 2) v v' \<and> Replied 1 resp \<in> set (observed v')"
proof -
  obtain v where v: "ov_steps (ov_start 1 1) v"
      "flights v 1 = Some (Deciding (sample_env unreachable) sample_request)"
    using two_in_flight by blast
  from no_request_waits [OF v(2)] v(1) show ?thesis by force
qed

theorem overlapping_requests_linearizable_witness:
  "\<exists>v. ov_steps (ov_start 1 1) v \<and> flights v 0 \<noteq> None \<and> 1 \<in> fst ` set (accesses v)
     \<and> snd (run_server (map asked (accesses v)) (newMux 1 1)) = ov_server v"
proof -
  obtain v where v: "ov_steps (ov_start 1 1) v" "flights v 0 \<noteq> None"
      "flights v 1 = Some (Deciding (sample_env unreachable) sample_request)"
    using two_in_flight by fastforce
  obtain u resp where f: "flights v 1 = Some (Deciding (sample_env unreachable) sample_request)"
      and u: "ov_step v u" "flights u = (flights v)(1 := Some (Ready resp))"
    using overlap_step_to [OF v(3)] v(3) by blast
  have "flights u 1 = Some (Ready resp)" using u(2) by simp
  note w = reply [OF this]
  define x where "x = u\<lparr>flights := (flights u)(1 := Some Gone), observed := observed u @ [Replied 1 resp]\<rparr>"
  have x: "ov_steps (ov_start 1 1) x"
    using v(1) u(1) w unfolding x_def by (meson rtranclp.rtrancl_into_rtrancl)
  from overlapping_requests_linearizable [OF x]
  have "Replied 1 resp \<in> set (observed x) \<Longrightarrow> 1 \<in> fst ` set (accesses x)"
    "snd (run_server (map asked (accesses x)) (newMux 1 1)) = ov_server x"
    by force+
  moreover have "Replied 1 resp \<in> set (observed x)" "flights x 0 \<noteq> None"
    using v(2) u(2) by (simp_all add: x_def)
  ultimately show ?thesis using x by blast
qed

end
