(* ===== verification/TypedJson.thy ===== *)
theory TypedJson
  imports GoHttp
begin

text \<open>
  What every decoded value satisfies: strings are valid UTF-8, whatever bytes came in, and
  integers fit in their 64 bits.
\<close>

section \<open>Strings of a parsed document\<close>

fun utf8_json :: "json \<Rightarrow> bool" where
  "utf8_json (JStr s) = valid_utf8 s"
| "utf8_json (JArr vs) = list_all utf8_json vs"
| "utf8_json (JObj ms) = list_all (\<lambda>(k, v). utf8_json v) ms"
| "utf8_json _ = True"

definition made_of_runes :: "string \<Rightarrow> bool" where
  "made_of_runes x \<longleftrightarrow> (\<exists>rs. list_all is_scalar rs \<and> x = of_runes rs)"

lemma made_of_runes_append: "made_of_runes x \<Longrightarrow> made_of_runes y \<Longrightarrow> made_of_runes (x @ y)"
  unfolding made_of_runes_def by (metis concat_append list_all_append map_append of_runes_def)

lemma made_of_runes_valid: "made_of_runes x \<Longrightarrow> valid_utf8 x"
  by (auto simp: made_of_runes_def valid_utf8_of_runes)

lemma made_of_runes_simps [simp]: "made_of_runes []" "made_of_runes (encode_rune u)"
proof -
  show "made_of_runes []" unfolding made_of_runes_def by (intro exI [of _ "[]"]) simp
  have "encode_rune u = of_runes [if is_scalar u then u else rune_error]"
    by (simp add: encode_rune_def is_scalar_def rune_error_def)
  moreover have "is_scalar rune_error" by (simp add: is_scalar_def rune_error_def)
  ultimately show "made_of_runes (encode_rune u)"
    unfolding made_of_runes_def by (intro exI [of _ "[if is_scalar u then u else rune_error]"]) simp
qed

lemma made_of_ascii: "byte_of c < 128 \<Longrightarrow> made_of_runes [c]"
  using of_runes_ascii [of "[c]"] ascii_scalar [of "[c]"]
  unfolding made_of_runes_def by (intro exI [of _ "[byte_of c]"]) (auto simp: ascii_def)

lemma simple_escape_ascii: "simple_escape c = Some x \<Longrightarrow> byte_of x < 128"
  by (auto simp: simple_escape_def quote_char_def backslash_def byte_of_def split: if_splits)

lemma unescape_u_runes: "unescape_u s = Some (x, r) \<Longrightarrow> made_of_runes x"
  by (auto simp: unescape_u_def split: bind_splits if_splits list.splits option.splits)

lemma unquote_step_runes: "unquote_step s = Some (x, r) \<Longrightarrow> made_of_runes x"
  by (auto simp: unquote_step_def made_of_ascii simple_escape_ascii
      split: list.splits if_splits dest: unescape_u_runes)

lemma unquote_runes: "unquote s = Some (x, r) \<Longrightarrow> made_of_runes x"
proof (induction s arbitrary: x r rule: unquote.induct)
  case (1 s)
  show ?case
  proof (cases "s \<noteq> [] \<and> hd s = quote_char")
    case True
    then show ?thesis using 1(2) by (simp add: unquote.simps [of s])
  next
    case False
    with 1(2) obtain y t z where st: "unquote_step s = Some (y, t)" "unquote t = Some (z, r)" "x = y @ z"
      by (auto simp: unquote.simps [of s] split: option.splits)
    from 1(1) [OF False st(1) refl st(2)] unquote_step_runes [OF st(1)] show ?thesis
      by (simp add: st(3) made_of_runes_append)
  qed
qed

lemma unquote_valid: "unquote s = Some (x, r) \<Longrightarrow> valid_utf8 x"
  by (rule made_of_runes_valid [OF unquote_runes])

lemma parsed_utf8:
  "parse_value n s = Some (v, r) \<Longrightarrow> utf8_json v"
  "parse_elems n s = Some (vs, r) \<Longrightarrow> list_all utf8_json vs"
  "parse_members n s = Some (ms, r) \<Longrightarrow> list_all (\<lambda>(k, v). utf8_json v) ms"
proof (induction n s and n s and n s arbitrary: v r and vs r and ms r
    rule: parse_value_parse_elems_parse_members.induct)
qed (auto split: list.splits if_splits option.splits dest: unquote_valid)

section \<open>Decoders that keep a type\<close>

text \<open>
  A type is a property of a value of the program.  A decoder that is given the text of a document
  keeps it if every value it decodes into something of the type is of the type again.
\<close>

locale typed_decoder =
  fixes dec :: "'a decoder" and zero :: 'a and ty :: "'a \<Rightarrow> bool"
  assumes zero_typed: "ty zero"
    and dec_typed: "utf8_json v \<Longrightarrow> ty x \<Longrightarrow> dec v x = Some y \<Longrightarrow> ty y"
begin

lemma parsed_typed:
  "parse_value n s = Some (v, r) \<Longrightarrow> dec v zero = Some y \<Longrightarrow> ty y"
  by (rule dec_typed [OF parsed_utf8(1) zero_typed])

lemma body_typed: "Decode_body dec zero resp = Inr y \<Longrightarrow> ty y"
  by (auto simp: Decode_body_def Let_def intro: parsed_typed split: option.splits prod.splits if_splits)

lemma elems_typed:
  "dec_elems zero dec vs old = Some ys \<Longrightarrow> list_all utf8_json vs \<Longrightarrow> list_all ty old \<Longrightarrow> list_all ty ys"
proof (induction vs arbitrary: old ys)
  case (Cons v vs)
  have "ty (case old of [] \<Rightarrow> zero | x # _ \<Rightarrow> x)" "list_all ty (tl old)"
    using Cons.prems(3) zero_typed by (cases old; simp)+
  with Cons show ?case by (auto split: option.splits dest: dec_typed)
qed simp

lemma list_typed: "typed_decoder (dec_list zero dec) [] (list_all ty)"
  by unfold_locales (auto simp: dec_list_def split: json.splits intro: elems_typed)

lemma ptr_typed: "typed_decoder (dec_ptr zero dec) None (pred_option ty)"
  using zero_typed
  by unfold_locales (auto simp: dec_ptr_def split: if_splits option.splits intro: dec_typed)

end

text \<open>Decoders of the basic types.\<close>

interpretation string_decoder: typed_decoder dec_string "[]" valid_utf8
  by unfold_locales (auto simp: dec_string_def valid_utf8_ascii ascii_def split: json.splits)

interpretation int_decoder: typed_decoder dec_int 0 in_int64
proof
  show "in_int64 0" by (simp add: int64_defs)
qed (auto simp: dec_int_def ParseInt_in_int64 split: json.splits if_splits)

text \<open>What is not said of a value needs no proof.\<close>

lemma untyped: "typed_decoder dec zero (\<lambda>_. True)"
  by unfold_locales simp_all

text \<open>A struct is of a type if each of its fields keeps it, and a field keeps it if it is decoded
  with its own type and the type of the struct speaks of that.\<close>

definition keeps :: "('a \<Rightarrow> bool) \<Rightarrow> 'a decoder \<Rightarrow> bool" where
  "keeps ty d \<longleftrightarrow> (\<forall>v x y. utf8_json v \<longrightarrow> ty x \<longrightarrow> d v x = Some y \<longrightarrow> ty y)"

lemma keepsD: "keeps ty d \<Longrightarrow> utf8_json v \<Longrightarrow> ty x \<Longrightarrow> d v x = Some y \<Longrightarrow> ty y"
  unfolding keeps_def by blast

lemma found_field: "find_field fs k = Some d \<Longrightarrow> d \<in> snd ` set fs"
  by (auto simp: find_field_def split: option.splits dest!: map_of_SomeD) (force+)?

lemma members_keep:
  "list_all (keeps ty) (map snd fs) \<Longrightarrow> list_all (\<lambda>(k, v). utf8_json v) ms \<Longrightarrow> ty x \<Longrightarrow>
     dec_members fs ms x = Some y \<Longrightarrow> ty y"
proof (induction ms arbitrary: x)
  case (Cons m ms)
  obtain k v where m: "m = (k, v)" by (cases m)
  show ?case
  proof (cases "find_field fs k")
    case None
    then show ?thesis using Cons m by simp
  next
    case (Some d)
    then obtain z where z: "d v x = Some z" "dec_members fs ms z = Some y"
      using Cons.prems(4) m by (auto split: option.splits)
    have "keeps ty d" using found_field [OF Some] Cons.prems(1) by (auto simp: list_all_iff)
    then have "ty z" by (rule keepsD) (use Cons.prems(2,3) m z(1) in simp_all)
    then show ?thesis using Cons.IH Cons.prems(1,2) m z(2) by simp
  qed
qed simp

lemma struct_keeps: "list_all (keeps ty) (map snd fs) \<Longrightarrow> keeps ty (dec_struct fs)"
  unfolding keeps_def [of ty "dec_struct fs"]
  by (auto simp: dec_struct_def intro: members_keep split: json.splits)

lemma keeps_decoder: "keeps ty d \<Longrightarrow> ty zero \<Longrightarrow> typed_decoder d zero ty"
  by unfold_locales (auto simp: keeps_def)

lemma decoder_keeps: "typed_decoder d zero ty \<Longrightarrow> keeps ty d"
  by (auto simp: keeps_def typed_decoder_def)

lemma field_keeps:
  assumes "keeps ft d" and "\<And>x. ty x \<Longrightarrow> ft (get x)" and "\<And>x y. ty x \<Longrightarrow> ft y \<Longrightarrow> ty (upd (\<lambda>_. y) x)"
  shows "keeps ty (field get upd d)"
  unfolding keeps_def
proof (intro allI impI)
  fix v x y
  assume v: "utf8_json v" "ty x" and "field get upd d v x = Some y"
  then obtain z where z: "d v (get x) = Some z" "y = upd (\<lambda>_. z) x" by (auto simp: field_def)
  have "ft z" using assms(1) v(1) assms(2) [OF v(2)] z(1) unfolding keeps_def by blast
  then show "ty y" using assms(3) [OF v(2)] z(2) by simp
qed

text \<open>The fields by what the type says of them: nothing, or the invariant of their own type.\<close>

lemma free_field: "(\<And>x y. ty x \<Longrightarrow> ty (upd (\<lambda>_. y) x)) \<Longrightarrow> keeps ty (field get upd d)"
  by (rule field_keeps [where ft = "\<lambda>_. True"]) (simp_all add: keeps_def)

lemmas string_field = field_keeps [OF decoder_keeps [OF string_decoder.typed_decoder_axioms]]
lemmas int_field = field_keeps [OF decoder_keeps [OF int_decoder.typed_decoder_axioms]]

lemma list_field:
  assumes "typed_decoder d zero ft" and "\<And>x. ty x \<Longrightarrow> list_all ft (get x)"
    and "\<And>x ys. ty x \<Longrightarrow> list_all ft ys \<Longrightarrow> ty (upd (\<lambda>_. ys) x)"
  shows "keeps ty (field get upd (dec_list zero d))"
  by (rule field_keeps [OF decoder_keeps [OF typed_decoder.list_typed [OF assms(1)]]]) (rule assms(2,3); assumption)+

end
