(* ===== verification/HafasTypes.thy ===== *)
theory HafasTypes
  imports TypedJson HafasProviders PublishedBoard
begin

text \<open>
  The types of what HAFAS sends and of what its providers answer.  HAFAS is only trusted to send
  bytes: whatever they are, what is decoded has valid texts, and what is published is JSON.
\<close>

section \<open>What the documents of HAFAS become\<close>

lemma valid_utf8_Nil [simp]: "valid_utf8 []"
  by (rule string_decoder.zero_typed)

lemma in_int64_small [simp]: "in_int64 0" "in_int64 1"
  by (simp_all add: int64_defs)

definition location_typed :: "hafasLocation \<Rightarrow> bool" where
  "location_typed l \<longleftrightarrow> valid_utf8 (loc_Name l) \<and> valid_utf8 (loc_ExtID l)"

definition product_typed :: "hafasProduct \<Rightarrow> bool" where
  "product_typed p \<longleftrightarrow> valid_utf8 (prod_Name p) \<and> valid_utf8 (prod_NameS p)"

definition common_typed :: "hafasCommon \<Rightarrow> bool" where
  "common_typed c \<longleftrightarrow> list_all location_typed (LocL c) \<and> list_all product_typed (ProdL c)"

abbreviation platform_typed :: "hafasPlatform option \<Rightarrow> bool" where
  "platform_typed \<equiv> pred_option (\<lambda>p. valid_utf8 (Txt p))"

definition stb_typed :: "hafasStbStop \<Rightarrow> bool" where
  "stb_typed s \<longleftrightarrow> platform_typed (DPltfS s) \<and> platform_typed (APltfS s)"

definition journey_typed :: "hafasJourney \<Rightarrow> bool" where
  "journey_typed j \<longleftrightarrow> valid_utf8 (JID j) \<and> valid_utf8 (DirTxt j) \<and> stb_typed (StbStop j)"

definition hafas_board_typed :: "hafasStationBoardResult \<Rightarrow> bool" where
  "hafas_board_typed b \<longleftrightarrow> common_typed (Common b) \<and> list_all journey_typed (JnyL b)"

interpretation location: typed_decoder dec_location zero_location location_typed
proof (rule keeps_decoder)
  show "keeps location_typed dec_location" unfolding dec_location_def
    by (rule struct_keeps) (auto simp: location_typed_def intro: string_field free_field)
qed (simp add: location_typed_def zero_location_def)

interpretation hafas_product: typed_decoder dec_product zero_product product_typed
proof (rule keeps_decoder)
  show "keeps product_typed dec_product" unfolding dec_product_def
    by (rule struct_keeps) (auto simp: product_typed_def intro: string_field free_field)
qed (simp add: product_typed_def zero_product_def)

lemmas location_list = list_field [OF location.typed_decoder_axioms]

interpretation common: typed_decoder dec_common zero_common common_typed
proof (rule keeps_decoder)
  show "keeps common_typed dec_common" unfolding dec_common_def
    by (rule struct_keeps)
      (auto simp: common_typed_def
        intro: location_list list_field [OF hafas_product.typed_decoder_axioms] free_field)
qed (simp add: common_typed_def zero_common_def)

interpretation platform: typed_decoder dec_platform None platform_typed
proof -
  have "keeps (\<lambda>p. valid_utf8 (Txt p)) (dec_struct [(''txt'', field Txt Txt_update dec_string)])"
    by (rule struct_keeps) (auto intro: string_field)
  then have "typed_decoder (dec_struct [(''txt'', field Txt Txt_update dec_string)]) \<lparr>Txt = []\<rparr> (\<lambda>p. valid_utf8 (Txt p))"
    by (rule keeps_decoder) simp
  then show "typed_decoder dec_platform None platform_typed"
    unfolding dec_platform_def by (rule typed_decoder.ptr_typed)
qed

interpretation stb: typed_decoder dec_stbStop zero_stbStop stb_typed
proof (rule keeps_decoder)
  show "keeps stb_typed dec_stbStop" unfolding dec_stbStop_def
    by (rule struct_keeps)
      (auto simp: stb_typed_def intro: free_field field_keeps [OF decoder_keeps [OF platform.typed_decoder_axioms]])
qed (simp add: stb_typed_def zero_stbStop_def)

interpretation journey: typed_decoder dec_hafas_journey zero_hafas_journey journey_typed
proof (rule keeps_decoder)
  show "keeps journey_typed dec_hafas_journey" unfolding dec_hafas_journey_def
    by (rule struct_keeps)
      (auto simp: journey_typed_def
        intro: string_field free_field field_keeps [OF decoder_keeps [OF stb.typed_decoder_axioms]])
qed (use stb.zero_typed in \<open>simp add: journey_typed_def zero_hafas_journey_def\<close>)

interpretation hafas_board: typed_decoder dec_board zero_board hafas_board_typed
proof (rule keeps_decoder)
  show "keeps hafas_board_typed dec_board" unfolding dec_board_def
    by (rule struct_keeps)
      (auto simp: hafas_board_typed_def intro: list_field [OF journey.typed_decoder_axioms] free_field
        field_keeps [OF decoder_keeps [OF common.typed_decoder_axioms]])
qed (use common.zero_typed in \<open>simp add: hafas_board_typed_def zero_board_def\<close>)

interpretation loc_match: typed_decoder dec_locMatch "\<lparr>match_LocL = []\<rparr>" "\<lambda>m. list_all location_typed (match_LocL m)"
proof (rule keeps_decoder)
  show "keeps (\<lambda>m. list_all location_typed (match_LocL m)) dec_locMatch" unfolding dec_locMatch_def
    by (auto intro!: struct_keeps location_list)
qed simp

interpretation loc_geo_pos: typed_decoder dec_locGeoPos "\<lparr>geo_Common = zero_common, geo_LocL = []\<rparr>"
  "\<lambda>m. list_all location_typed (geo_LocL m)"
proof (rule keeps_decoder)
  show "keeps (\<lambda>m. list_all location_typed (geo_LocL m)) dec_locGeoPos" unfolding dec_locGeoPos_def
    by (rule struct_keeps) (auto intro: location_list free_field)
qed simp

text \<open>A raw message is a piece of the document.\<close>

definition svc_typed :: "hafasSvcResult \<Rightarrow> bool" where
  "svc_typed r \<longleftrightarrow> pred_option utf8_json (svc_Res r)"

definition hafas_response_typed :: "hafasResponse \<Rightarrow> bool" where
  "hafas_response_typed r \<longleftrightarrow> list_all svc_typed (SvcResL r)"

interpretation svc: typed_decoder dec_svc zero_svc svc_typed
proof (rule keeps_decoder)
  have "keeps svc_typed (field svc_Res svc_Res_update dec_raw)"
    by (auto simp: keeps_def field_def dec_raw_def svc_typed_def)
  then show "keeps svc_typed dec_svc" unfolding dec_svc_def
    by (intro struct_keeps) (auto simp: svc_typed_def intro: free_field)
qed (simp add: svc_typed_def zero_svc_def)

interpretation hafas_response: typed_decoder dec_response "\<lparr>hr_Err = [], SvcResL = []\<rparr>" hafas_response_typed
proof (rule keeps_decoder)
  show "keeps hafas_response_typed dec_response" unfolding dec_response_def
    by (rule struct_keeps)
      (auto simp: hafas_response_typed_def intro: list_field [OF svc.typed_decoder_axioms] free_field)
qed (simp add: hafas_response_typed_def)

section \<open>One call\<close>

lemma raw_typed: "hafas_do c meth req = (Inr svc, d) \<Longrightarrow> svc_typed svc"
  using hafas_response.body_typed
  by (fastforce simp: hafas_do_def check_response_def hafas_response_typed_def
      split: option.splits prod.splits sum.splits if_splits list.splits)

lemma call_typed:
  assumes "typed_decoder dec zero ty" and "hafas_call dec zero c meth req = (Inr x, d)"
  shows "ty x"
  using assms(2) typed_decoder.zero_typed [OF assms(1)] typed_decoder.dec_typed [OF assms(1)]
  by (fastforce simp: hafas_call_def decode_res_def svc_typed_def
      split: prod.splits sum.splits option.splits dest!: raw_typed)

lemma station_board_typed: "stationBoard c ident ty d = (Inr res, t) \<Longrightarrow> hafas_board_typed res"
  unfolding stationBoard_def by (rule call_typed [OF hafas_board.typed_decoder_axioms])

lemma match_typed: "locMatch c q n = (Inr res, t) \<Longrightarrow> list_all location_typed (match_LocL res)"
  "locMatchByExtID c q = (Inr res, t) \<Longrightarrow> list_all location_typed (match_LocL res)"
  unfolding locMatch_def locMatchByExtID_def by (erule call_typed [OF loc_match.typed_decoder_axioms])+

lemma geo_typed: "locGeoPos c lat lon radius n = (Inr res, t) \<Longrightarrow> list_all location_typed (geo_LocL res)"
  unfolding locGeoPos_def by (rule call_typed [OF loc_geo_pos.typed_decoder_axioms])

section \<open>What is published\<close>

text \<open>Marshalling succeeded, and its bytes parse to a value nested not too deeply.\<close>

definition is_json :: "go_error + bytes \<Rightarrow> bool" where
  "is_json res \<longleftrightarrow> (case res of Inl _ \<Rightarrow> True | Inr data \<Rightarrow> parse_doc data \<noteq> None)"

lemma marshalled: "(\<And>v. j = Some v \<Longrightarrow> good 10 v) \<Longrightarrow> is_json (Marshal_result j)"
  by (auto simp: is_json_def Marshal_result_def Marshal_def good_def max_depth_def parse_doc_print split: option.split)

lemma list_good:
  assumes "json_list f xs = Some v" and "\<And>x w. x \<in> set xs \<Longrightarrow> f x = Some w \<Longrightarrow> good n w"
  shows "good (Suc n) v"
proof -
  obtain vs where vs: "those (map f xs) = Some vs" "v = JArr vs" using assms(1) by (auto simp: json_list_def)
  have "list_all (good n) vs"
    using vs(1) assms(2)
  proof (induction xs arbitrary: vs)
    case (Cons x xs)
    then obtain w ws where w: "f x = Some w" "those (map f xs) = Some ws" "vs = w # ws"
      by (auto split: option.splits)
    have "good n w" by (rule Cons.prems(2) [OF _ w(1)]) simp
    moreover have "list_all (good n) ws"
      by (rule Cons.IH [OF w(2)]) (rule Cons.prems(2), simp_all)
    ultimately show ?case by (simp add: w(3))
  qed simp
  then show ?thesis unfolding vs(2) by (rule good_Arr)
qed

lemma admitted_texts:
  assumes "hafas_board_typed res" and "(loc, prd, jny) \<in> set (admitted res)"
  shows "texts_valid loc prd jny (DPltfS (StbStop jny)) \<and> texts_valid loc prd jny (APltfS (StbStop jny))"
proof -
  have "(loc, prd, jny) \<in> set (translate_loop (\<lambda>loc prd jny. (loc, prd, jny)) res js) \<Longrightarrow>
      loc \<in> set (LocL (Common res)) \<and> prd \<in> set (ProdL (Common res)) \<and> jny \<in> set js" for js
    by (induction js) (auto simp: board_refs_def Let_def split: option.splits if_splits)
  with assms have t: "location_typed loc" "product_typed prd" "journey_typed jny"
    by (auto simp: admitted_def hafas_board_typed_def common_typed_def list_all_iff)
  then show ?thesis
    by (auto simp: texts_valid_def location_typed_def product_typed_def journey_typed_def stb_typed_def
        split: option.split)
qed

lemma board_good:
  assumes "json_list jf (translate_loop f res (JnyL res)) = Some v"
    and "\<And>loc prd jny w. (loc, prd, jny) \<in> set (admitted res) \<Longrightarrow> jf (f loc prd jny) = Some w \<Longrightarrow> good 3 w"
    and "ascii k"
  shows "good 10 (JObj [(k, v), (''realtimeDataUpdatedAt'', json_int n)])"
proof -
  have "good (Suc 3) v"
    using assms(1,2) unfolding translate_loop_map [of f] admitted_def [symmetric]
    by (intro list_good [where f = jf]) auto
  then have "good (Suc (Suc 3)) (JObj [(k, v), (''realtimeDataUpdatedAt'', json_int n)])"
    using assms(3) by (intro good_Obj) (simp add: ascii_Cons byte_of_def)
  then show ?thesis by (rule good_mono) simp
qed

lemma boards_json:
  assumes "hafas_board_typed res"
  shows "is_json (translateDepartures res)" and "is_json (translateArrivals res)"
proof -
  note texts = admitted_texts [OF assms]
  show "is_json (translateDepartures res)" unfolding translateDepartures_def json_departures_def restDeparturesResponse.simps
    by (rule marshalled)
      (auto simp: ascii_Cons byte_of_def dest: texts intro!: board_good departure_good_texts)
  show "is_json (translateArrivals res)" unfolding translateArrivals_def json_arrivals_def restArrivalsResponse.simps
    by (rule marshalled)
      (auto simp: ascii_Cons byte_of_def dest: texts intro!: board_good arrival_good)
qed

lemma stop_json_good:
  "location_typed loc \<Longrightarrow> json_stop (hafasLocationToRestStop loc) = Some v \<Longrightarrow> good 2 v"
  by (auto simp: json_stop_def location_typed_def intro: stop_good)

lemma good_snoc: "good n (JObj ms) \<Longrightarrow> ascii k \<Longrightarrow> good 0 v \<Longrightarrow> good n (JObj (ms @ [(k, v)]))"
  by (auto simp: good_def valid_utf8_ascii)

lemma nearby_json_good:
  assumes "location_typed loc"
    and "json_nearby \<lparr>nearby_stop = hafasLocationToRestStop loc, Distance = d\<rparr> = Some v"
  shows "good 2 v"
proof -
  obtain ms where ms: "stop_members (hafasLocationToRestStop loc) = Some ms"
      "v = JObj (ms @ [(''distance'', json_int d)])"
    using assms(2) by (auto simp: json_nearby_def)
  have "good 2 (JObj ms)" using stop_good [OF ms(1)] assms(1) by (simp add: location_typed_def)
  then show ?thesis unfolding ms(2) by (rule good_snoc) (simp_all add: ascii_Cons byte_of_def)
qed

lemma locations_json:
  assumes "list_all location_typed locs"
  shows "is_json (translateLocations locs)" and "is_json (translateNearbyLocations locs)"
    and "loc \<in> set locs \<Longrightarrow> is_json (translateStop loc)"
proof -
  have t: "location_typed loc" if "loc \<in> set locs" for loc using assms that by (auto simp: list_all_iff)
  have up: "good (Suc 2) v \<Longrightarrow> good 10 v" "good 2 v \<Longrightarrow> good 10 v" for v by (auto intro: good_mono)
  show "is_json (translateLocations locs)" unfolding translateLocations_def
    by (rule marshalled, rule up(1), erule list_good) (auto intro: stop_json_good t)
  show "is_json (translateNearbyLocations locs)" unfolding translateNearbyLocations_def
    by (rule marshalled, rule up(1), erule list_good) (auto intro: nearby_json_good t)
  show "is_json (translateStop loc)" if "loc \<in> set locs" unfolding translateStop_def
    by (rule marshalled, rule up(2)) (rule stop_json_good [OF t [OF that]])
qed

section \<open>The providers\<close>

definition json_result :: "fetch_result \<Rightarrow> bool" where
  "json_result res \<longleftrightarrow> (case res of (None, _, _) \<Rightarrow> True
     | (Some data, hdr, _) \<Rightarrow> parse_doc data \<noteq> None \<and> hdr = json_header)"

lemma translated_json: "is_json x \<Longrightarrow> json_result (translated x)" "json_result (failed e)"
  by (auto simp: is_json_def json_result_def translated_def failed_def split: sum.splits)

lemma finish_json:
  "(\<And>x d. res = (Inr x, d) \<Longrightarrow> json_result (tr x)) \<Longrightarrow> json_result (fst (finish r res tr))"
  by (auto simp: finish_def translated_json split: prod.split sum.split)

lemma missing_json: "json_result (fst (missing t))"
  by (simp add: missing_def translated_json)

lemma stop_json:
  "list_all location_typed locs \<Longrightarrow>
     json_result (case locs of [] \<Rightarrow> failed e | loc # _ \<Rightarrow> translated (translateStop loc))"
  using locations_json(3) [of locs] by (cases locs) (simp_all add: translated_json)

lemma providers_json:
  "json_result (fst (HAFAS_Departures h r))" "json_result (fst (HAFAS_Arrivals h r))"
  "json_result (fst (HAFAS_Locations h r))" "json_result (fst (HAFAS_Nearby h r))"
  "json_result (fst (HAFAS_Stop h r))"
  unfolding provider_defs Let_def
  by (auto simp: missing_json translated_json
      intro!: finish_json translated_json boards_json locations_json stop_json
      dest: station_board_typed match_typed geo_typed)

text \<open>C11. HAFAS is not trusted: whatever bytes it answers with, a body that one of its five providers
  returns is a document that parses as JSON, labelled as such.\<close>

theorem hafas_answers_are_json:
  assumes "fetch \<in> {HAFAS_Departures, HAFAS_Arrivals, HAFAS_Locations, HAFAS_Nearby, HAFAS_Stop}"
    and "fst (fetch h r) = (Some data, hdr, err)"
  shows "(\<exists>v. parse_doc data = Some v) \<and> header_values hdr ''Content-Type'' = [''application/json'']"
proof -
  have "json_result (fst (fetch h r))" using assms(1) providers_json [of h r] by auto
  then have "parse_doc data \<noteq> None" "hdr = json_header" using assms(2) by (auto simp: json_result_def)
  then show ?thesis
    by (auto simp: json_header_def header_values_set simp del: header_set.simps)
qed

definition sample_hafas :: HAFASClient where
  "sample_hafas = NewHAFASClient
     (answering 200 ''{\"err\":\"OK\",\"svcResL\":[{\"err\":\"OK\",\"res\":{\"match\":{\"locL\":[]}}}]}'') ''https://h'' ''aid'' []"

lemma sample_hafas_body:
  "parse_first ''{\"err\":\"OK\",\"svcResL\":[{\"err\":\"OK\",\"res\":{\"match\":{\"locL\":[]}}}]}'' = Some
     (JObj [(''err'', JStr ''OK''), (''svcResL'', JArr [JObj [(''err'', JStr ''OK''),
        (''res'', JObj [(''match'', JObj [(''locL'', JArr [])])])]])])"
  by code_simp

lemma sample_hafas_decoded:
  "dec_response (JObj [(''err'', JStr ''OK''), (''svcResL'', JArr [JObj [(''err'', JStr ''OK''),
        (''res'', JObj [(''match'', JObj [(''locL'', JArr [])])])]])]) \<lparr>hr_Err = [], SvcResL = []\<rparr>
     = Some \<lparr>hr_Err = ''OK'', SvcResL = [\<lparr>svc_Meth = [], svc_Err = ''OK'',
         svc_Res = Some (JObj [(''match'', JObj [(''locL'', JArr [])])])\<rparr>]\<rparr>"
  "dec_locMatch (JObj [(''match'', JObj [(''locL'', JArr [])])]) \<lparr>match_LocL = []\<rparr> = Some \<lparr>match_LocL = []\<rparr>"
  by code_simp+

lemma sample_match: "fst (locMatch sample_hafas q n) = Inr \<lparr>match_LocL = []\<rparr>"
  by (simp add: locMatch_def hafas_call_def hafas_do_def sample_hafas_def NewHAFASClient_def answering_def
      Decode_body_ok Decode_def sample_hafas_body sample_hafas_decoded check_response_def decode_res_def)

lemma sample_location_answer:
  "fst (HAFAS_Locations sample_hafas (sample_request\<lparr>URL := \<lparr>escaped_path = ''/locations'', raw_query = ''query=a'',
     force_query = False\<rparr>\<rparr>)) = (Some ''[]'', json_header, None)"
proof -
  let ?r = "sample_request\<lparr>URL := \<lparr>escaped_path = ''/locations'', raw_query = ''query=a'', force_query = False\<rparr>\<rparr>"
  have q: "query_get (Query ?r) ''query'' = ''a''" by code_simp
  have t: "translateLocations [] = Inr ''[]''" by code_simp
  show ?thesis
    using sample_match [of "''a''" "int_param ?r ''results'' 5"]
    by (cases "locMatch sample_hafas ''a'' (int_param ?r ''results'' 5)")
      (simp add: HAFAS_Locations_def q finish_def t translated_def)
qed

theorem hafas_answers_are_json_witness: "\<exists>v. parse_doc ''[]'' = Some v"
  using hafas_answers_are_json [of HAFAS_Locations, OF _ sample_location_answer] by simp

end
