(* ===== verification/AnswerTypes.thy ===== *)
theory AnswerTypes
  imports HafasTypes Access
begin

text \<open>
  The types of what the server answers.  The upstreams are only trusted to send bytes; what the
  compact endpoint decodes, translates, stores and replays is well-typed all the same.  The standard
  routes answer 200 throughout.
\<close>

section \<open>What the documents of transport.rest become\<close>

definition up_departure_typed :: "compactUpstreamDeparture \<Rightarrow> bool" where
  "up_departure_typed d \<longleftrightarrow> valid_utf8 (up_Direction d) \<and> valid_utf8 (up_LineName d)
     \<and> valid_utf8 (up_LineProduct d) \<and> valid_utf8 (up_StopName d)"

definition upstream_typed :: "compactUpstreamResponse \<Rightarrow> bool" where
  "upstream_typed u \<longleftrightarrow> list_all up_departure_typed (up_Departures u) \<and> in_int64 (RealtimeDataUpdatedAt u)"

interpretation up_departure: typed_decoder dec_upstream_departure zero_upstream_departure up_departure_typed
proof (rule keeps_decoder)
  let ?k = "keeps up_departure_typed"
  have line: "?k dec_up_line" unfolding dec_up_line_def
    by (rule struct_keeps) (auto simp: up_departure_typed_def intro: string_field)
  have stop: "?k dec_up_stop" unfolding dec_up_stop_def
    by (rule struct_keeps) (auto simp: up_departure_typed_def intro: string_field)
  show "?k dec_upstream_departure" unfolding dec_upstream_departure_def
    by (rule struct_keeps) (auto simp: line stop up_departure_typed_def intro: free_field string_field)
qed (simp add: up_departure_typed_def zero_upstream_departure_def)

interpretation upstream: typed_decoder dec_upstream zero_upstream upstream_typed
proof (rule keeps_decoder)
  show "keeps upstream_typed dec_upstream" unfolding dec_upstream_def
    by (rule struct_keeps)
      (auto simp: upstream_typed_def intro: list_field [OF up_departure.typed_decoder_axioms] int_field)
qed (simp add: upstream_typed_def zero_upstream_def)

section \<open>From the upstreams to a board\<close>

definition departure_typed :: "compactDeparture \<Rightarrow> bool" where
  "departure_typed d \<longleftrightarrow>
     cd_Line d \<noteq> [] \<and> valid_utf8 (cd_Line d) \<and> valid_utf8 (cd_Product d)
   \<and> valid_utf8 (cd_Direction d) \<and> length (to_runes (cd_Direction d)) \<le> 24
   \<and> in_int64 (cd_Time d) \<and> in_int64 (cd_Delay d) \<and> cd_Cancelled d \<in> {0, 1} \<and> cd_Warning d \<in> {0, 1}"

definition board_typed :: "compactBoard \<Rightarrow> bool" where
  "board_typed b \<longleftrightarrow>
     stop_id (cb_ID b) \<and> cb_Name b \<noteq> [] \<and> valid_utf8 (cb_Name b)
   \<and> list_all departure_typed (Departures b) \<and> sorted (map cd_Time (Departures b))"

definition result_typed :: "compactFetchResult \<Rightarrow> bool" where
  "result_typed res \<longleftrightarrow> (case res of Inl _ \<Rightarrow> True | Inr (b, u) \<Rightarrow> board_typed b \<and> in_int64 u)"

lemma ascii_utf8 [simp]: "byte_of c < 128 \<Longrightarrow> ascii s \<Longrightarrow> valid_utf8 (c # s)"
  by (rule valid_utf8_ascii) (simp add: ascii_def)

lemma product_name_utf8: "valid_utf8 (hafasProductName cls)"
  by (rule valid_utf8_ascii) (simp add: hafasProductName_def ascii_def byte_of_def)

lemma int_of_float_int64: "in_int64 (int_of_float f)"
  by (cases f rule: int_of_float.cases) (auto simp: int64_defs)

lemma stop_id_utf8: "stop_id s \<Longrightarrow> valid_utf8 s \<and> s \<noteq> []"
  by (fastforce simp: stop_id_def list_all_iff is_digit_def ascii_def intro!: valid_utf8_ascii)

lemma question_mark: "valid_utf8 ''?''"
  by (rule valid_utf8_ascii) (simp add: ascii_def byte_of_def)

lemmas departure_types = departure_typed_def direction_runes question_mark int_of_float_int64 wrap64_in
  Unix_def whole_minutes_def product_name_utf8

lemma upstream_departure_typed: "up_departure_typed d \<Longrightarrow> departure_typed (upstream_departure t d)"
  by (simp add: upstream_departure_def departure_types up_departure_typed_def split: option.split)

lemma hafas_departure_typed:
  "product_typed prd \<Longrightarrow> departure_typed (hafas_departure loc prd jny p t)"
  by (simp add: hafas_departure_def departure_types product_typed_def Let_def)

lemma board_name_typed:
  assumes "stop_id ident" and "list_all valid_utf8 names"
  shows "valid_utf8 (board_name ident names) \<and> board_name ident names \<noteq> []"
  using assms stop_id_utf8 [OF assms(1)]
  by (auto simp: board_name_def list_all_iff find_Some_iff split: option.splits)

lemma upstream_board_typed:
  assumes "upstream_typed up" and "stop_id ident"
  shows "board_typed (transformCompactBoard now ident up)"
proof -
  have "list_all valid_utf8 (map up_StopName (up_Departures up))"
    using assms(1) by (auto simp: upstream_typed_def up_departure_typed_def list_all_iff)
  with board_name_typed [OF assms(2) this] assms show ?thesis
    by (auto simp: transform_upstream board_typed_def Let_def sort_departures_sorted list_all_iff
        upstream_typed_def intro: upstream_departure_typed)
qed

lemma admitted_typed:
  assumes "hafas_board_typed res" and "(loc, prd, jny) \<in> set (admitted res)"
  shows "location_typed loc \<and> product_typed prd"
proof -
  have "(loc, prd, jny) \<in> set (translate_loop (\<lambda>loc prd jny. (loc, prd, jny)) res js) \<Longrightarrow>
      loc \<in> set (LocL (Common res)) \<and> prd \<in> set (ProdL (Common res))" for js
    by (induction js) (auto simp: board_refs_def Let_def split: option.splits if_splits)
  with assms show ?thesis
    by (auto simp: admitted_def hafas_board_typed_def common_typed_def list_all_iff)
qed

lemma hafas_board_to_typed:
  assumes "hafas_board_typed res" and "stop_id ident"
  shows "board_typed (transformHAFASCompactBoard now ident res)"
proof -
  have "list_all valid_utf8 (map (\<lambda>(loc, _, _). loc_Name loc) (admitted res))"
    using admitted_typed [OF assms(1)] by (auto simp: location_typed_def list_all_iff)
  with board_name_typed [OF assms(2) this] assms(2) show ?thesis
    using admitted_typed [OF assms(1)]
    by (auto simp: transform_hafas board_typed_def Let_def sort_departures_sorted list_all_iff
        intro!: hafas_departure_typed)
qed

lemma fetched_typed:
  assumes "stop_id ident"
  shows "result_typed (fst (fetchCompactBoard now client up ident d))"
  using upstream_board_typed [OF _ assms] upstream.body_typed
  by (auto simp: fetchCompactBoard_def Let_def result_typed_def upstream_typed_def
      split: option.split prod.split sum.split)

lemma fetched_from_hafas_typed:
  assumes "stop_id ident"
  shows "result_typed (fst (fetchCompactBoardFromHAFAS now h ident d))"
  using hafas_board_to_typed [OF station_board_typed assms]
  by (auto simp: fetchCompactBoardFromHAFAS_def result_typed_def hafasPlanrtTS_def ParseInt_in_int64
      split: prod.split sum.split)

lemma stop_typed:
  assumes "stop_id ident"
  shows "result_typed (fst (fetch_stop sur d i ident))"
proof (cases "fst (fetchCompactBoard (rest_clock sur i) (rest_client sur i) (rest_upstream sur) ident d)")
  case (Inl e)
  then show ?thesis
    using fetched_from_hafas_typed [OF assms]
    by (cases "hafas_client sur") (simp_all add: fetch_stop_result, simp add: result_typed_def)
next
  case (Inr bu)
  then show ?thesis
    using fetched_typed [OF assms, of "rest_clock sur i" "rest_client sur i" "rest_upstream sur" d]
    by (simp add: fetch_stop_result)
qed

lemma requested_ids: "requested_stops r = Some ids \<Longrightarrow> list_all stop_id ids \<and> length ids \<le> 4"
  by (auto simp: requested_stops_def parseCompactStops_eq Let_def split: if_splits)

lemma results_typed: "list_all result_typed (stop_results sur r) \<and> length (stop_results sur r) \<le> 4"
proof (cases "requested_stops r")
  case (Some ids)
  have "stop_id (snd x)" if "x \<in> set (enumerate 0 ids)" for x
    using that requested_ids [OF Some] by (auto simp: list_all_iff in_set_enumerate_eq dest: nth_mem)
  with requested_ids [OF Some] show ?thesis
    by (auto simp: stop_results_def Some compact_fetches_def list_all_iff intro: stop_typed)
qed (simp add: stop_results_def)

section \<open>Responses\<close>

definition response_typed :: "compactResponse \<Rightarrow> bool" where
  "response_typed d \<longleftrightarrow>
     in_int64 (AsOf d) \<and> Partial d \<in> {0, 1}
   \<and> 1 \<le> length (Boards d) \<and> length (Boards d) \<le> 4
   \<and> list_all (\<lambda>b. board_typed b \<and> length (Departures b) \<le> 10) (Boards d)"

text \<open>A typed response is published as JSON that says just that.\<close>

lemma published_response:
  assumes "response_typed d"
  shows "parse_doc (Marshal (json_compactResponse d)) = Some (json_compactResponse d)"
proof -
  have dep: "good (Suc 0) (json_compactDeparture x)" if "departure_typed x" for x
    using that good_Obj [of 0] unfolding json_compactDeparture_def departure_typed_def
    by (intro good_Obj) (simp add: ascii_def byte_of_def)
  have board: "good 3 (json_compactBoard b)" if "board_typed b" for b
  proof -
    have "good (Suc (Suc 0)) (JArr (map json_compactDeparture (Departures b)))"
      using that by (intro good_Arr) (auto simp: board_typed_def list_all_iff intro: dep)
    moreover have "valid_utf8 (cb_ID b)" "valid_utf8 (cb_Name b)"
      using that stop_id_utf8 by (auto simp: board_typed_def)
    ultimately have "good (Suc (Suc (Suc 0))) (json_compactBoard b)"
      unfolding json_compactBoard_def by (intro good_Obj) (simp add: ascii_def byte_of_def)
    then show ?thesis by (simp add: numeral_3_eq_3)
  qed
  have "good (Suc 3) (JArr (map json_compactBoard (Boards d)))"
    using assms by (intro good_Arr) (auto simp: response_typed_def list_all_iff intro: board)
  then have "good (Suc (Suc 3)) (json_compactResponse d)"
    unfolding json_compactResponse_def by (intro good_Obj) (simp add: ascii_def byte_of_def)
  then have "wf_json (json_compactResponse d)" "json_depth (json_compactResponse d) \<le> max_depth"
    by (auto simp: good_def max_depth_def)
  then show ?thesis by (simp add: Marshal_def parse_doc_print)
qed

definition body_typed :: "bytes \<Rightarrow> bool" where
  "body_typed data \<longleftrightarrow> (\<exists>d. response_typed d \<and> parse_doc data = Some (json_compactResponse d))"

definition answer_typed :: "response \<Rightarrow> bool" where
  "answer_typed resp \<longleftrightarrow>
     header_values (resp_headers resp) ''Content-Type'' = [''application/json'']
   \<and> ((status resp = 200 \<and> body_typed (resp_body resp))
      \<or> (status resp = 400 \<and> resp_body resp = ''{\"error\":\"bad_request\"}'')
      \<or> (status resp = 502 \<and> resp_body resp = ''{\"error\":\"upstream\"}''))"

lemma fetched_boards_mem: "bu \<in> set (fetched_boards rs) \<longleftrightarrow> Inr bu \<in> set rs"
  by (induction rs rule: fetched_boards.induct) auto

lemma fetched_boards_length: "length (fetched_boards rs) \<le> length rs"
  by (induction rs rule: fetched_boards.induct) auto

lemma fold_max_int64: "list_all in_int64 us \<Longrightarrow> in_int64 m \<Longrightarrow> in_int64 (fold max us m)"
  by (induction us arbitrary: m) (auto simp: max_def)

lemma response_made_typed:
  assumes "fetched_boards (stop_results sur r) \<noteq> []"
  shows "body_typed (response_data now (compact_limit r) (stop_results sur r))"
proof -
  let ?rs = "stop_results sur r" and ?l = "compact_limit r"
  let ?d = "\<lparr>AsOf = response_asOf now ?rs, Partial = (if some_failed ?rs then 1 else 0),
     Boards = response_boards ?l ?rs\<rparr>"
  have fetched: "board_typed b \<and> in_int64 u" if "(b, u) \<in> set (fetched_boards ?rs)" for b u
    using results_typed [of sur r] that by (auto simp: fetched_boards_mem list_all_iff result_typed_def)
  have "list_all in_int64 (map snd (fetched_boards ?rs))"
    using fetched by (auto simp: list_all_iff)
  then have "in_int64 (response_asOf now ?rs)"
    by (auto simp: response_asOf_def Let_def Unix_def wrap64_in intro: fold_max_int64)
  moreover have "board_typed (cut_board ?l b) \<and> length (Departures (cut_board ?l b)) \<le> 10"
    if "board_typed b" for b
    using that limit_range [of r]
    by (auto simp: cut_board_def board_typed_def list_all_iff take_map [symmetric] sorted_wrt_take dest: in_set_takeD)
  then have "list_all (\<lambda>b. board_typed b \<and> length (Departures b) \<le> 10) (response_boards ?l ?rs)"
    using fetched by (auto simp: response_boards_def list_all_iff)
  moreover have "1 \<le> length (response_boards ?l ?rs)" "length (response_boards ?l ?rs) \<le> 4"
    using assms fetched_boards_length [of ?rs] results_typed [of sur r]
    by (auto simp: response_boards_def Suc_le_eq)
  ultimately have "response_typed ?d" by (simp add: response_typed_def)
  from published_response [OF this] \<open>response_typed ?d\<close> show ?thesis
    by (auto simp: body_typed_def response_data_def)
qed

section \<open>The cache of the server\<close>

text \<open>What is stored under the keys of the compact endpoint.\<close>

definition compact_path :: "string \<Rightarrow> bool" where
  "compact_path k \<longleftrightarrow> takeWhile (\<lambda>c. c \<noteq> CHR ''?'') k = compactRoutePath"

definition stored_typed :: "cache \<Rightarrow> bool" where
  "stored_typed c \<longleftrightarrow> (\<forall>k e. compact_path k \<longrightarrow> map_of (abs_cache c) k = Some e \<longrightarrow> body_typed (body e))"

lemma writeCompactJSON_typed:
  "header_values (resp_headers (writeCompactJSON w code data)) ''Content-Type'' = [''application/json'']"
  "status (writeCompactJSON w code data) = code" "resp_body (writeCompactJSON w code data) = data"
  by (simp_all add: writeCompactJSON_def header_values_set)

lemmas answer_types = answer_typed_def writeCompactJSON_typed compactErrBadRequest_def compactErrUpstream_def

lemma stored_sub:
  assumes "stored_typed c" and "\<And>k e. map_of (abs_cache c') k = Some e \<Longrightarrow>
    map_of (abs_cache c) k = Some e \<or> \<not> compact_path k \<or> body_typed (body e)"
  shows "stored_typed c'"
  using assms unfolding stored_typed_def by blast

lemma handle_typed:
  assumes "cache_inv c" and "stored_typed c"
  shows "answer_typed (fst (fst (handleCompactDepartures sur r c)))
    \<and> stored_typed (snd (fst (handleCompactDepartures sur r c)))"
proof (cases "requested_stops r")
  case None
  then show ?thesis by (simp add: handle_invalid answer_types assms(2))
next
  case (Some ids)
  then have valid: "requested_stops r \<noteq> None" by simp
  show ?thesis
  proof (cases "fetched_boards (stop_results sur r) = []")
    case True
    have key: "compact_path (compact_key r)"
      using path_of_compact_key [of r] by (simp add: compact_path_def compact_key_def Some compactCacheKey_def
          compactRoutePath_def)
    have found: "body_typed (body e)" if "fst (Cache_Get (get_clock sur) (compact_key r) c) = Some e" for e
      using lru.get_stored [OF assms(1)] that key assms(2) unfolding stored_typed_def by blast
    have "stored_typed (snd (Cache_Get (get_clock sur) (compact_key r) c))"
      using get_keeps [OF assms(1)] by (auto intro: stored_sub [OF assms(2)])
    then show ?thesis
      using found by (auto simp: handle_all_failed [OF valid True] answer_types split: option.split)
  next
    case served: False
    note typed = response_made_typed [OF served]
    have "stored_typed (Cache_Set (compact_key r)
        (response_entry (asof_clock sur) (compact_limit r) (stop_results sur r)) c)"
    proof (rule stored_sub [OF assms(2)])
      fix k e
      assume "map_of (abs_cache (Cache_Set (compact_key r)
        (response_entry (asof_clock sur) (compact_limit r) (stop_results sur r)) c)) k = Some e"
      from lru.put_cases [OF assms(1) this]
      show "map_of (abs_cache c) k = Some e \<or> \<not> compact_path k \<or> body_typed (body e)"
        using typed by (auto simp: response_entry_def)
    qed
    then show ?thesis using typed assms(2) by (simp add: handle_served [OF served] answer_types)
  qed
qed

text \<open>The other routes have other keys.\<close>

lemma other_route_typed:
  assumes "valid_url (URL r)" and "findHandler (Method r) (URL r) = Handler p h ms" and "h \<noteq> CompactDepartures"
    and "handler_of env h (matched p ms r) c = ((resp, c'), evs)" and "cache_inv c" and "stored_typed c"
  shows "stored_typed c'"
proof (rule stored_sub [OF assms(6)])
  fix k e
  assume m: "map_of (abs_cache c') k = Some e"
  show "map_of (abs_cache c) k = Some e \<or> \<not> compact_path k \<or> body_typed (body e)"
  proof (cases "k = uri_key r")
    case True
    have "escaped_path (URL r) \<noteq> compactRoutePath" using compact_path_only [OF _ assms(2)] assms(3) by auto
    then show ?thesis using path_of_uri_key(1) [OF assms(1)] True by (simp add: compact_path_def)
  next
    case False
    then show ?thesis
      using handled_step(4) [OF assms(4,5) m] assms(3) by (auto simp: route_key_def uri_key_def matched_def)
  qed
qed

definition types_inv :: "(request \<times> response option) list \<Rightarrow> server \<Rightarrow> bool" where
  "types_inv hist s \<longleftrightarrow> stored_typed (dynamicCache s)
   \<and> (\<forall>r out p ms. (r, Some out) \<in> set hist \<longrightarrow>
        findHandler (Method r) (URL r) = Handler p CompactDepartures ms \<longrightarrow> answer_typed out)"

lemma types_step:
  assumes "types_inv hist s" and "cache_inv (dynamicCache s)" and "valid_url (URL r)"
    and "ServeHTTP env r s = ((resp, s'), evs)"
  shows "types_inv (hist @ [(r, resp)]) s'"
  using assms(4)
proof (cases rule: serve_cases)
  case own
  then show ?thesis using assms(1) by (auto simp: types_inv_def)
next
  case (handled p h ms out)
  obtain c' where c: "handler_of env h (matched p ms r) (cache_of (tier_of h) s) = ((out, c'), evs)"
    using run_route_caches(2) [OF handled(3)] by auto
  note s' = run_route_caches(1) [OF handled(3) c, of Dynamic]
  note old = assms(1) [unfolded types_inv_def]
  show ?thesis
  proof (cases "h = CompactDepartures")
    case True
    then have "handleCompactDepartures ((compact_surroundings env)\<lparr>get_clock := env_now env\<rparr>) (matched p ms r)
        (dynamicCache s) = ((out, c'), evs)"
      using c by (simp add: handler_functions)
    with handle_typed [OF assms(2) conjunct1 [OF old]] have "answer_typed out \<and> stored_typed c'"
      by (metis fst_conv snd_conv)
    then show ?thesis using s' old True handled(2) by (auto simp: types_inv_def)
  next
    case other: False
    have "stored_typed (dynamicCache s')"
      using s' old other_route_typed [OF assms(3) handled(1) other c] assms(2) by (auto split: if_splits)
    then show ?thesis using old other handled(1,2) by (auto simp: types_inv_def)
  qed
qed

lemma types_reached: "reaches a b hist s \<Longrightarrow> types_inv hist s"
proof (induction rule: reaches.induct)
  case start
  show ?case by (simp add: types_inv_def stored_typed_def newMux_def NewCache_abs)
next
  case (answer hist s r env resp s' evs)
  have "\<forall>t. cache_inv (cache_of t s)" using reaches_inv [OF answer(1)] by (simp add: server_inv_def)
  then have "cache_inv (dynamicCache s)" by (metis cache_of_simps(2))
  from types_step [OF answer(4) this answer(2,3)] show ?case .
qed

text \<open>C3. Type soundness of the compact endpoint.  Whatever bytes the two upstreams send, and whatever
  the server has done before, every answer to a request for the route is JSON of the schema: a 200
  parses to a response with one to four boards, each with the identifier of a stop, a name and at
  most ten departures sorted by time, whose flags are 0 or 1, whose integers fit in 64 bits, whose
  strings are valid UTF-8 and whose line is not empty; and otherwise it is the error of a 400 or of a
  502.  A replayed answer is no exception.\<close>

theorem compact_answers_typed:
  assumes "reaches staticCap dynamicCap hist s" and "(r, Some resp) \<in> set hist"
    and "findHandler (Method r) (URL r) = Handler p CompactDepartures ms"
  shows "header_values (resp_headers resp) ''Content-Type'' = [''application/json'']
    \<and> (status resp = 200 \<and>
         (\<exists>d. response_typed d \<and> parse_doc (resp_body resp) = Some (json_compactResponse d))
       \<or> (status resp, resp_body resp) \<in>
           {(400, ''{\"error\":\"bad_request\"}''), (502, ''{\"error\":\"upstream\"}'')})"
  using types_reached [OF assms(1)] assms(2,3)
  unfolding types_inv_def answer_typed_def body_typed_def by blast

section \<open>A concrete answer\<close>

lemma sample_compact_found:
  "findHandler (Method sample_compact_request) (URL sample_compact_request)
     = Handler ''GET /compact/departures'' CompactDepartures []"
  "valid_url (URL sample_compact_request)"
  by code_simp+

theorem compact_answers_typed_witness:
  "\<exists>out s. reaches 1 1 [(sample_compact_request, Some out)] s \<and> status out = 200
     \<and> (\<exists>d. response_typed d \<and> parse_doc (resp_body out) = Some (json_compactResponse d))"
proof -
  let ?env = "sample_env sample_upstream" and ?r = sample_compact_request
  let ?sur = "(compact_surroundings ?env)\<lparr>get_clock := env_now ?env\<rparr>"
  have m: "matched ''GET /compact/departures'' [] ?r = ?r"
    by (simp add: matched_def sample_compact_request_def)
  have sur: "?sur = sample_surroundings sample_upstream 0"
    by (simp add: compact_surroundings_def sample_env_def sample_surroundings_def)
  obtain out c evs where h: "handler_of ?env CompactDepartures ?r (NewCache 1) = ((out, c), evs)"
    by (metis surj_pair)
  have "ServeHTTP ?env ?r (newMux 1 1) = ((Some out, (newMux 1 1)\<lparr>dynamicCache := c\<rparr>), evs)"
    using h by (simp add: ServeHTTP_def sample_compact_found m run_route_def newMux_def)
  from reaches.answer [OF reaches.start sample_compact_found(2) this]
  have reached: "reaches 1 1 [(?r, Some out)] ((newMux 1 1)\<lparr>dynamicCache := c\<rparr>)" by simp
  have "fetched_boards (stop_results ?sur ?r) \<noteq> []" unfolding sur by (simp add: sample_results(1))
  from handle_served [OF this, of "NewCache 1"] h have "status out = 200"
    by (simp add: handler_functions writeCompactJSON_def)
  with compact_answers_typed [OF reached _ sample_compact_found(1)] reached show ?thesis by force
qed

section \<open>The standard routes\<close>

lemma standard_status:
  assumes "cache_inv c" and "providers_ok ps"
    and "\<And>e. map_of (abs_cache c) (uri_key r) = Some e \<Longrightarrow> statusCode e = 200"
  shows "status (fst (fst (newStandardHandler ps eb f now r c))) = 200"
  using standard_always_200 [OF assms(1,2), of r eb f now] assms(3) by (simp add: uri_key_def)

lemma standard_routes_are:
  "h \<notin> {Metrics_page, Radar, Shape, MapImage, CompactDepartures, Healthz} \<longleftrightarrow> standard_of env h \<noteq> None"
  by (cases h) simp_all

definition standard_inv :: "(request \<times> response option) list \<Rightarrow> bool" where
  "standard_inv hist \<longleftrightarrow> (\<forall>r out p h ms. (r, Some out) \<in> set hist \<longrightarrow>
     findHandler (Method r) (URL r) = Handler p h ms \<longrightarrow>
     h \<notin> {Metrics_page, Radar, Shape, MapImage, CompactDepartures, Healthz} \<longrightarrow> status out = 200)"

lemma standard_step:
  assumes "standard_inv hist" and "server_inv a b hist s" and "valid_url (URL r)"
    and "ServeHTTP env r s = ((resp, s'), evs)"
  shows "standard_inv (hist @ [(r, resp)])"
  using assms(4)
proof (cases rule: serve_cases)
  case own
  then show ?thesis using assms(1) by (simp add: standard_inv_def)
next
  case (handled p h ms out)
  have "status out = 200" if h: "h \<notin> {Metrics_page, Radar, Shape, MapImage, CompactDepartures, Healthz}"
  proof -
    obtain ps eb f where std: "standard_of env h = Some (ps, eb, f)"
      using h unfolding standard_routes_are [of h env] by (metis not_None_eq prod_cases3)
    note H = standard_of_handler [OF std]
    let ?c = "cache_of (tier_of h) s" and ?r = "matched p ms r"
    have inv: "cache_inv ?c" using assms(2) by (simp add: server_inv_def)
    have "statusCode e = 200" if e: "map_of (abs_cache ?c) (uri_key ?r) = Some e" for e
    proof -
      from e have "given hist (tier_of h) (route_key h ?r) e"
        using assms(2) H(3) by (simp add: server_inv_def)
      then obtain r0 p0 h0 ms0 out0 where 0: "(r0, Some out0) \<in> set hist" "valid_url (URL r0)"
          "findHandler (Method r0) (URL r0) = Handler p0 h0 ms0"
          "route_key h0 (matched p0 ms0 r0) = route_key h ?r" "statusCode e = status out0"
        unfolding given_def by auto
      from same_key_same_route [OF assms(3) 0(2) handled(1) 0(3,4)] have "h0 = h" by simp
      with assms(1) 0(1,3,5) h show ?thesis unfolding standard_inv_def by metis
    qed
    with inv H(2) have "status (fst (fst (newStandardHandler ps eb f (env_now env) ?r ?c))) = 200"
      by (intro standard_status)
    then show ?thesis using run_route_caches(2) [OF handled(3)] by (auto simp: H(1))
  qed
  then show ?thesis using assms(1) handled(1,2) by (auto simp: standard_inv_def)
qed

text \<open>C14. Whatever the upstreams do, and whatever the server has done before, every answer of a
  standard route has status 200: the fallback included, since only answers of the same route are
  replayed to it.\<close>

theorem standard_routes_answer_200:
  assumes "reaches staticCap dynamicCap hist s" and "(r, Some resp) \<in> set hist"
    and "findHandler (Method r) (URL r) = Handler p h ms"
    and "h \<notin> {Metrics_page, Radar, Shape, MapImage, CompactDepartures, Healthz}"
  shows "status resp = 200"
proof -
  have "standard_inv hist"
    using assms(1)
  proof (induction rule: reaches.induct)
    case start
    show ?case by (simp add: standard_inv_def)
  next
    case (answer hist s r env resp s' evs)
    from standard_step [OF answer(4) reaches_inv [OF answer(1)] answer(2,3)] show ?case .
  qed
  with assms(2-4) show ?thesis unfolding standard_inv_def by blast
qed

theorem standard_routes_answer_200_witness:
  "\<exists>out s. reaches 1 1 [(sample_request, Some out)] s \<and> status out = 200"
proof -
  obtain out where r: "reaches 1 1 [(sample_request, Some out)]
      ((newMux 1 1)\<lparr>staticCache := Cache_Set ''/stops/900100003'' sample_stop_entry (NewCache 1)\<rparr>)"
    using sample_reaches by blast
  have "findHandler (Method sample_request) (URL sample_request)
      = Handler ''GET /stops/{id}'' StopInfo [(''id'', ''900100003'')]"
    using sample_found(1) by (simp add: sample_request_def)
  from standard_routes_answer_200 [OF r _ this] r show ?thesis by auto
qed

end
