(* ===== verification/MetricLabels.thy ===== *)
theory MetricLabels
  imports Access
begin

text \<open>
  The labels of the metrics (\<open>metrics.go\<close>): whatever is requested and whatever the upstreams answer,
  the label values come from a fixed set, but for the digits of a status.
\<close>

section \<open>The labels of one event\<close>

fun labelled :: "string \<Rightarrow> string \<Rightarrow> event \<Rightarrow> bool" where
  "labelled m p (UpstreamRequestsTotal u m' p' code) \<longleftrightarrow>
     u \<in> {''transport_rest'', ''hafas''} \<and> m' = m \<and> p' = p \<and> code \<in> range Itoa"
| "labelled m p (UpstreamRequestDuration u m' p' d) \<longleftrightarrow>
     u \<in> {''transport_rest'', ''hafas''} \<and> m' = m \<and> p' = p"
| "labelled m p (UpstreamErrorsTotal u m' p' reason) \<longleftrightarrow>
     u \<in> {''transport_rest'', ''hafas''} \<and> m' = m \<and> p' = p
     \<and> reason \<in> {''timeout'', ''connection_refused'', ''unknown''} \<union> range httpErrorReason"
| "labelled m p (FallbackResponsesTotal m' p') \<longleftrightarrow> m' = m \<and> p' = p"
| "labelled m p _ \<longleftrightarrow> True"

abbreviation all_labelled :: "string \<Rightarrow> string \<Rightarrow> event list \<Rightarrow> bool" where
  "all_labelled m p evs \<equiv> list_all (labelled m p) evs"

lemma error_labelled [simp]:
  "labelled m p (UpstreamErrorsTotal ''transport_rest'' m p (errorReason e))"
  "labelled m p (UpstreamErrorsTotal ''hafas'' m p (errorReason e))"
  "labelled m p (UpstreamErrorsTotal ''transport_rest'' m p (httpErrorReason code))"
  using errorReason_range [of e] by auto

lemma upstream_labelled [simp]:
  "all_labelled m p (upstream_events ''transport_rest'' m p d (Itoa code))"
  "all_labelled m p (upstream_events ''hafas'' m p d ''200'')"
proof -
  have "''200'' = Itoa 200" by code_simp
  then show "all_labelled m p (upstream_events ''hafas'' m p d ''200'')"
    by (auto simp: upstream_events_def)
qed (simp add: upstream_events_def)

section \<open>The handlers\<close>

lemma fallback_labelled [simp]:
  "all_labelled (Method r) (routePath r) (snd (serveFallback eb key now r c))"
  by (auto simp: serveFallback_def split: prod.splits option.splits)

lemma fallback_run:
  "serveFallback eb key now r c = (x, evs) \<Longrightarrow> all_labelled (Method r) (routePath r) evs"
  using fallback_labelled [of r eb key now c] by simp

lemma call_labelled:
  "all_labelled m p (snd (Fetch q r)) \<Longrightarrow> all_labelled m p (snd (callProvider q r))"
  by (auto simp: callProvider_events span_error_def split: option.splits)

lemma chain_labelled:
  "list_all (\<lambda>q. all_labelled m p (snd (Fetch q r))) ps \<Longrightarrow> all_labelled m p (snd (try_providers ps r))"
proof (induction ps)
  case (Cons q ps)
  then have "all_labelled m p (snd (callProvider q r))" by (simp add: call_labelled)
  with Cons show ?case by (auto simp: Let_def split: prod.splits)
qed simp

lemma standard_labelled:
  "list_all (\<lambda>q. all_labelled (Method r) (routePath r) (snd (Fetch q r))) ps \<Longrightarrow>
     all_labelled (Method r) (routePath r) (snd (newStandardHandler ps eb f now r c))"
  using chain_labelled [of "Method r" "routePath r" r ps]
  by (auto simp: newStandardHandler_def Let_def dest: fallback_run split: prod.splits option.splits)

lemma Forward_labelled: "all_labelled (Method r) (routePath r) (snd (Forward client upstream r))"
  by (auto simp: Forward_def Let_def simp del: labelled.simps split: prod.splits sum.splits)

lemma finish_labelled [simp]: "all_labelled (Method r) (routePath r) (snd (finish r res tr))"
  by (auto simp: finish_def simp del: labelled.simps split: prod.splits sum.splits)

lemma HAFAS_labelled:
  "all_labelled (Method r) (routePath r) (snd (HAFAS_Departures h r))"
  "all_labelled (Method r) (routePath r) (snd (HAFAS_Arrivals h r))"
  "all_labelled (Method r) (routePath r) (snd (HAFAS_Locations h r))"
  "all_labelled (Method r) (routePath r) (snd (HAFAS_Nearby h r))"
  "all_labelled (Method r) (routePath r) (snd (HAFAS_Stop h r))"
  by (simp_all add: provider_defs missing_def Let_def)

lemma providers_labelled:
  "(\<And>h. all_labelled (Method r) (routePath r) (snd (fetch h r))) \<Longrightarrow>
     list_all (\<lambda>q. all_labelled (Method r) (routePath r) (snd (Fetch q r))) (with_hafas fetch env)"
  "list_all (\<lambda>q. all_labelled (Method r) (routePath r) (snd (Fetch q r))) (restOnly env)"
  by (simp_all add: with_hafas_def restOnly_def Forward_labelled split: option.split)

lemma shape_labelled: "all_labelled (Method r) (routePath r) (snd (handleShape client upstream now r c))"
  by (auto simp: handleShape_def Let_def simp del: labelled.simps dest: fallback_run split: prod.splits sum.splits)

lemma map_labelled: "all_labelled (Method r) (routePath r) (snd (handleMap client upstream now r c))"
  by (auto simp: handleMap_def Let_def simp del: labelled.simps split: prod.splits sum.splits)

lemma radar_labelled: "all_labelled (Method r) (routePath r) (snd (handleRadar client upstream r))"
proof -
  have "labelled m p (FallbackResponsesTotal m p)" for m p by simp
  then show ?thesis
    by (auto simp: handleRadar_def newPassthroughHandler_def Let_def simp del: labelled.simps
        split: prod.splits sum.splits)
qed

text \<open>The compact endpoint names its method and its path itself.\<close>

lemma span_call_labelled:
  "all_labelled m p (snd f) \<Longrightarrow> all_labelled m p (snd (span_call n f))"
  by (auto simp: span_call_def callProviderRaw_def span_error_def Let_def split: prod.splits option.splits)

lemma fetch_labelled:
  "all_labelled ''GET'' compactRoutePath (snd (fetchCompactBoard now client up ident d))"
  "all_labelled ''GET'' compactRoutePath (snd (fetchCompactBoardFromHAFAS now h ident d))"
  by (auto simp: fetchCompactBoard_def fetchCompactBoardFromHAFAS_def Let_def simp del: labelled.simps
      split: option.splits prod.splits sum.splits)

lemma fetch_stop_labelled: "all_labelled ''GET'' compactRoutePath (snd (fetch_stop sur d i ident))"
  using span_call_labelled [OF fetch_labelled(1)] span_call_labelled [OF fetch_labelled(2)]
  by (auto simp: fetch_stop_def Let_def split: prod.splits option.splits) (metis snd_conv)+

lemma compact_labelled: "all_labelled ''GET'' compactRoutePath (snd (handleCompactDepartures sur r c))"
proof (cases "requested_stops r")
  case (Some ids)
  have "all_labelled ''GET'' compactRoutePath (concat (map snd (compact_fetches sur (compact_duration r) ids)))"
    using fetch_stop_labelled by (fastforce simp: compact_fetches_def list_all_iff)
  then show ?thesis by (simp add: handle_events [OF Some] respond_events)
qed (simp add: handle_invalid)

section \<open>The server\<close>

lemma handler_labelled:
  "all_labelled (Method r) (routePath r) (snd (handler_of env h r c))
   \<or> (h = CompactDepartures \<and> all_labelled ''GET'' compactRoutePath (snd (handler_of env h r c)))"
proof (cases "tier_of h = NoCache")
  case True
  then show ?thesis
    using radar_labelled [of r "env_client env" "env_upstream env"] by (cases h) (auto split: prod.splits)
next
  case False
  then show ?thesis
    by (cases h)
      (simp_all add: handler_functions standard_routes compact_labelled shape_labelled map_labelled
        standard_labelled providers_labelled HAFAS_labelled del: labelled.simps)
qed

lemma pattern_methods: "list_all (\<lambda>(p, h). take 4 p = ''GET '') route_table"
  by code_simp

lemma route_label:
  assumes "(p, h) \<in> set route_table"
  shows "Method r = ''GET'' \<Longrightarrow> routePath (matched p ms r) = drop 4 p"
    and "Method r = ''HEAD'' \<Longrightarrow> routePath (matched p ms r) = p"
proof -
  have "take 4 p = ''GET ''" using pattern_methods assms by (auto simp: list_all_iff)
  then obtain q where p: "p = ''GET '' @ q" by (metis append_take_drop_id)
  show "Method r = ''GET'' \<Longrightarrow> routePath (matched p ms r) = drop 4 p"
    "Method r = ''HEAD'' \<Longrightarrow> routePath (matched p ms r) = p"
    by (simp_all add: p routePath_def matched_def TrimPrefix_def HasPrefix_def)
qed

text \<open>C19. The labels of the metrics do not grow with what is requested: in every answer of the server, to
  whatever request, each metric has one of two upstreams, a method and a path that name a route of
  the table, and a reason out of three or of the form \<open>http_nxx\<close>.  The path is that of the
  pattern for GET; for HEAD, which matches the same patterns, it keeps the prefix \<open>GET\<close>.\<close>

theorem metric_labels_bounded:
  "list_all (\<lambda>e. \<exists>p h. (p, h) \<in> set route_table \<and> (labelled ''GET'' (drop 4 p) e \<or> labelled ''HEAD'' p e))
     (snd (ServeHTTP env r s))"
proof -
  obtain out s' evs where serve: "ServeHTTP env r s = ((out, s'), evs)" by (metis surj_pair)
  have "\<exists>p h. (p, h) \<in> set route_table \<and> (all_labelled ''GET'' (drop 4 p) evs \<or> all_labelled ''HEAD'' p evs)"
    using serve
  proof (cases rule: serve_cases)
    case own
    then show ?thesis by (auto simp: route_table_def)
  next
    case (handled p h ms resp)
    obtain c' where c: "handler_of env h (matched p ms r) (cache_of (tier_of h) s) = ((resp, c'), evs)"
      using run_route_caches(2) [OF handled(3)] by auto
    have t: "(p, h) \<in> set route_table" by (rule handler_in_table [OF handled(1)])
    have meth: "Method r = ''GET'' \<or> Method r = ''HEAD''" "Method (matched p ms r) = Method r"
      using handled(1) by (auto simp: findHandler_def Let_def matched_def split: if_splits option.splits)
    have compact: "(''GET /compact/departures'', CompactDepartures) \<in> set route_table"
      "drop 4 ''GET /compact/departures'' = compactRoutePath"
      by (simp_all add: route_table_def compactRoutePath_def)
    from handler_labelled [of "matched p ms r" env h "cache_of (tier_of h) s"] c
    consider "all_labelled (Method r) (routePath (matched p ms r)) evs" | "all_labelled ''GET'' compactRoutePath evs"
      using meth(2) by auto
    then show ?thesis
    proof cases
      case 1
      from meth(1) show ?thesis
      proof
        assume "Method r = ''GET''"
        then show ?thesis using 1 t route_label(1) [OF t] by auto
      next
        assume "Method r = ''HEAD''"
        then show ?thesis using 1 t route_label(2) [OF t] by auto
      qed
    next
      case 2
      then show ?thesis using compact by metis
    qed
  qed
  then show ?thesis using serve by (auto simp: list_all_iff)
qed

end
