(* ===== verification/Spec2Isabelle.thy ===== *)
theory Spec2Isabelle
  imports Startup Concurrent AnswerTypes MetricLabels
begin

text \<open>
  A model of \<open>regelmaesig\<close>, a caching reverse proxy for the public transport API
  \<open>v6.vbb.transport.rest\<close>, and the theorems that make it correct.

  \<^bold>\<open>The program.\<close>  A client's request is dispatched by the route table of \<open>mux.go\<close> to a handler
  (\<open>handle_*.go\<close>).  Most handlers are instances of the standard handler of \<open>proxy.go\<close>: they ask a
  chain of data providers, first transport.rest (\<open>Forward\<close>) and then, where it is configured, HAFAS
  (\<open>hafas.go\<close>, translated by \<open>hafas_translate.go\<close>); a success goes to the client and, if its expiry
  (\<open>expiry.go\<close>) lies in the future, into one of two LRU caches (\<open>cache.go\<close>); if every provider
  fails, the cache answers, or else an empty JSON value.  Shapes and maps also take redirects for
  content, the radar route has no cache, and \<open>/compact/departures\<close> fetches several stops in
  parallel and composes a board of its own.  \<open>main.go\<close> reads the configuration and runs the
  server, \<open>tracing.go\<close> guards the set-up of tracing, \<open>metrics.go\<close> names the metrics.

  \<^bold>\<open>The theories\<close>, in the order of their imports:

  \<^item> \<open>Prelude\<close>: names of types, 64-bit wrap-around (\<open>wrap64\<close>), lists and association lists.

  \<^item> \<open>GoStrings\<close>, \<open>GoUtf8\<close>, \<open>GoTime\<close>, \<open>GoJson\<close>, \<open>GoFloat\<close>, \<open>GoHttp\<close>: what the program uses of
  Go's standard library, written out: \<open>strconv\<close>, \<open>strings\<close>, UTF-8, \<open>time.Time\<close> with its RFC 3339
  form and saturating differences, \<open>encoding/json\<close> in both directions, binary64 rounding, headers,
  queries and requests.

  \<^item> \<open>LruCache\<close> (\<open>cache.go\<close>): the map and the linked list at the level of pointers, \<open>Cache_Get\<close>
  and \<open>Cache_Set\<close>, the invariant \<open>cache_inv\<close>, the abstract LRU list that they refine, and the locale
  \<open>response_cache\<close> that the handlers rely on.

  \<^item> \<open>Expiry\<close> (\<open>expiry.go\<close>): the seven expiry functions, from the bytes of a body, under the locale
  \<open>expiry_function\<close>.

  \<^item> \<open>Metrics\<close>, \<open>Proxy\<close> (\<open>metrics.go\<close>, \<open>proxy.go\<close>): effects as lists of events; forwarding, spans,
  the provider chain, the standard and the passthrough handler; the locales \<open>data_provider\<close> (what a
  handler expects of a provider) and \<open>route_handler\<close> (what the server expects of a handler).

  \<^item> \<open>Routes\<close> (\<open>handle_*.go\<close>): the wrappers with their empty bodies and expiry functions; shapes and maps.

  \<^item> \<open>Hafas\<close>, \<open>HafasTranslate\<close>, \<open>HafasProviders\<close> (\<open>hafas.go\<close>, \<open>hafas_translate.go\<close>): the
  records with their decoders, the request that is sent and the checks of the response, the five
  calls, the translation to the format of transport.rest, and the five providers, each an
  interpretation of \<open>data_provider\<close>.

  \<^item> \<open>CompactParams\<close>, \<open>CompactBoard\<close>, \<open>PublishedBoard\<close>, \<open>CompactHandler\<close>
  (\<open>handle_compact_departures.go\<close>): parameters and cache keys; the two ways to a board;
  the comparison of both, through the JSON that the proxy itself publishes; the fetch of a
  stop, the fan-out as a step relation over goroutines, and the handler.

  \<^item> \<open>Mux\<close> (\<open>mux.go\<close>): patterns and their matching as \<open>net/http\<close> does it, the table, the providers
  and the cache tier of each route, and the server as a state machine over its two caches.

  \<^item> \<open>Access\<close>: every handler split into what it decides before it touches its cache and the one access
  that it then makes (\<open>handler_performs\<close>).  On this rest \<open>Outage\<close>, the course of an outage seen by one
  client among others; \<open>Concurrent\<close>, the specification of the server over plain LRU lists and the step
  relation of requests that overlap; and \<open>MetricLabels\<close>, the labels of the events.

  \<^item> \<open>TypedJson\<close>, \<open>HafasTypes\<close>, \<open>AnswerTypes\<close>: which properties of a value a decoder establishes from
  arbitrary bytes (the locale \<open>typed_decoder\<close>, interpreted on the decoders of both upstreams), the types
  of what the HAFAS providers return, and the types of the answers of the server.

  \<^item> \<open>Startup\<close> (\<open>main.go\<close>, \<open>tracing.go\<close>): environment, command line, guards, and \<open>run\<close> with
  its two goroutines.

  \<^bold>\<open>How state and effects correspond.\<close>  A handler is a function of the clock, the request and the
  cache; it gives the response, the cache that it leaves, and the metric and span calls that it made,
  in their order.  The \<open>ResponseWriter\<close> is the header written so far.  Errors are values of
  \<open>go_error\<close>.  An \<open>http_client\<close> is a parameter: it says of every outbound request whether it can be
  built and what the exchange gives, a partly read body included.  A handler does at most one
  operation on a cache, and the mutex makes that atomic; so requests that overlap appear in the
  histories of \<open>reaches\<close> in the order of these operations, each with surroundings of its own, which
  \<open>Concurrent\<close> justifies by linearizability.
  Inside the compact handler the goroutines are modelled as such.

  \<^bold>\<open>What the lemmas show.\<close>

  \<^item> Cache: it implements the abstract LRU list for every sequence of calls, keeps its bound, and
  loses no entry before it has to.

  \<^item> Handlers: the first provider that succeeds answers; the last good answer is replayed when all
  fail, never once it has expired; counters and spans are balanced on every path.

  \<^item> Expiry: the latest effective time of the items of a body, for every body.

  \<^item> HAFAS: success is characterised exactly; times, delays, coordinates and products are
  translated as specified, and a translated board read back by the expiry function and by the
  compact transformation gives what the direct way gives; whatever bytes HAFAS sends, what is
  published is JSON.

  \<^item> Compact: validity of the parameters, injectivity of the cache key, the contents and the order of
  the boards, the independence of the result from the schedule of the goroutines and the end of
  every schedule, status codes, and that only complete responses are stored.

  \<^item> Server: dispatch finds the most specific pattern; every route honours \<open>route_handler\<close> and
  stores only what it answers, so that after any history each cached entry is an earlier answer of
  the same route for the same key, within the capacity of its tier.

  \<^item> Server over time: it refines its specification for every sequence of requests; requests that
  overlap are linearizable and do not wait for one another; an answer survives an outage under the
  load that the capacity allows; standard routes answer 200 in every history; every answer of the
  compact endpoint is well-typed JSON, replayed or not; the labels of the metrics stay within the table
  of the routes.

  \<^item> Start-up: the precedence of flags, environment and defaults; \<open>run\<close> shuts tracing down exactly
  once, exits with 0 only after a graceful shutdown, and cannot hang after a signal.

  \<^bold>\<open>Bounds and fuel.\<close>  The JSON parser runs on \<open>parse_fuel s = 2 * length s + 1\<close>, more than any
  value of \<open>s\<close> needs, since every call consumes a byte or descends once per byte; \<open>max_depth\<close> is
  the limit 10000 of \<open>encoding/json\<close>.  \<open>duration_loop\<close> gets the length of the string, and every
  round consumes at least two bytes.  Nothing else is bounded by fuel.

  \<^bold>\<open>Not modelled\<close>: the network, TLS and the HTTP wire format; the Prometheus registry and its page;
  the OpenTelemetry SDK and the propagation of spans; the replies that \<open>net/http\<close> gives itself
  (redirects to clean paths, 404, 405 are recognised but have no body here) and \<open>OPTIONS *\<close>;
  the headers that it adds on its own; log lines; the texts of JSON errors; hexadecimal floats and
  floats with underscores; the limit of 10000 query parameters; the sign of a floating zero.
  The conversion of a float outside the range of \<open>int\<close> is that of amd64.  A signal that arrives before
  \<open>run\<close> has asked to be notified ends the process at once, and is left out.
\<close>

end
